theory Spec2Isabelle
  imports Complex_Main "HOL-Library.Monad_Syntax"
begin

section \<open>The JavaScript values the dashboard works on\<close>

text \<open>
  The validation engine of \<^verbatim>\<open>src/app/dashboard/page.tsx\<close> reads rows whose cells are
  of type \<^verbatim>\<open>any\<close>: what a spreadsheet import or \<^verbatim>\<open>JSON.parse\<close> of the stored upload
  produces. A cell is therefore a JSON value, or \<^verbatim>\<open>undefined\<close> when a field is absent.

  A number is a not-a-number, an infinity or a finite value. Finite values are kept exact
  (a rational): the model agrees with IEEE doubles wherever no rounding happens, which
  covers the integers below \<open>2^53\<close> and the short decimals a sheet holds. There is no
  negative zero (it prints and compares as zero). A string is a list of 8-bit
  characters, so text outside Latin-1 is out of the model.
\<close>

datatype jsnum = NaN | PInf | NInf | Fin rat

datatype jsval =
    JUndefined
  | JNull
  | JBool bool
  | JNum jsnum
  | JStr string
  | JArr "jsval list"
  | JObj "(string \<times> jsval) list"

subsection \<open>Numbers: comparison and addition\<close>

fun isNaN :: "jsnum \<Rightarrow> bool" where
  "isNaN NaN = True"
| "isNaN _ = False"

text \<open>\<^verbatim>\<open>a < b\<close> on numbers: false as soon as one side is not a number.\<close>

fun js_lt :: "jsnum \<Rightarrow> jsnum \<Rightarrow> bool" where
  "js_lt NaN _ = False"
| "js_lt _ NaN = False"
| "js_lt PInf _ = False"
| "js_lt _ NInf = False"
| "js_lt NInf _ = True"
| "js_lt _ PInf = True"
| "js_lt (Fin a) (Fin b) = (a < b)"

definition js_gt :: "jsnum \<Rightarrow> jsnum \<Rightarrow> bool" where
  "js_gt a b = js_lt b a"

text \<open>\<^verbatim>\<open>a <= b\<close>: again false on a not-a-number, so it is not the negation of \<^verbatim>\<open>b < a\<close>.\<close>

definition js_le :: "jsnum \<Rightarrow> jsnum \<Rightarrow> bool" where
  "js_le a b = (\<not> isNaN a \<and> \<not> isNaN b \<and> \<not> js_lt b a)"

fun js_add :: "jsnum \<Rightarrow> jsnum \<Rightarrow> jsnum" where
  "js_add NaN _ = NaN"
| "js_add _ NaN = NaN"
| "js_add PInf NInf = NaN"
| "js_add NInf PInf = NaN"
| "js_add PInf _ = PInf"
| "js_add _ PInf = PInf"
| "js_add NInf _ = NInf"
| "js_add _ NInf = NInf"
| "js_add (Fin a) (Fin b) = Fin (a + b)"

definition num_of_nat :: "nat \<Rightarrow> jsnum" where
  "num_of_nat n = Fin (of_nat n)"

subsection \<open>Strings: the methods of \<^verbatim>\<open>String.prototype\<close> the code calls\<close>

definition is_space :: "char \<Rightarrow> bool" where
  \<comment> \<open>white space and line terminators of ECMAScript that fit in 8 bits\<close>
  "is_space c = (c \<in> set [CHR 0x09, CHR 0x0A, CHR 0x0B, CHR 0x0C, CHR 0x0D, CHR 0x20, CHR 0xA0])"

definition trim :: "string \<Rightarrow> string" where
  "trim s = rev (dropWhile is_space (rev (dropWhile is_space s)))"

definition toLowerCase_char :: "char \<Rightarrow> char" where
  "toLowerCase_char c =
     (case map_of (zip ''ABCDEFGHIJKLMNOPQRSTUVWXYZ'' ''abcdefghijklmnopqrstuvwxyz'') c of
        Some l \<Rightarrow> l
      | None \<Rightarrow> c)"

definition toLowerCase :: "string \<Rightarrow> string" where
  "toLowerCase s = map toLowerCase_char s"

definition startsWith :: "string \<Rightarrow> string \<Rightarrow> bool" where
  "startsWith s p = (take (length p) s = p)"

definition endsWith :: "string \<Rightarrow> string \<Rightarrow> bool" where
  "endsWith s p = (length p \<le> length s \<and> drop (length s - length p) s = p)"

fun includes_str :: "string \<Rightarrow> string \<Rightarrow> bool" where
  "includes_str [] p = (p = [])"
| "includes_str (c # cs) p = (startsWith (c # cs) p \<or> includes_str cs p)"

text \<open>\<^verbatim>\<open>s.split(c)\<close> for a one-character separator: the empty string gives one empty piece.\<close>

fun split :: "char \<Rightarrow> string \<Rightarrow> string list" where
  "split c [] = [[]]"
| "split c (x # xs) =
     (if x = c then [] # split c xs
      else (case split c xs of
              [] \<Rightarrow> [[x]]
            | p # ps \<Rightarrow> (x # p) # ps))"

fun join :: "string \<Rightarrow> string list \<Rightarrow> string" where
  "join sep [] = []"
| "join sep [s] = s"
| "join sep (s # t # ts) = s @ sep @ join sep (t # ts)"

subsection \<open>Number to string\<close>

definition is_digit :: "char \<Rightarrow> bool" where
  "is_digit c = (c \<in> set ''0123456789'')"

definition digit_val :: "char \<Rightarrow> nat" where
  "digit_val c = length (takeWhile (\<lambda>d. d \<noteq> c) ''0123456789abcdef'')"

definition digit_char :: "nat \<Rightarrow> char" where
  "digit_char d = ''0123456789'' ! d"

fun show_nat :: "nat \<Rightarrow> string" where
  "show_nat n = (if n < 10 then [digit_char n] else show_nat (n div 10) @ [digit_char (n mod 10)])"

declare show_nat.simps [simp del]

text \<open>
  \<^verbatim>\<open>Number::toString\<close> of ECMAScript on a positive finite value \<open>r\<close>: with \<open>s\<close> the
  digits of \<open>r\<close> without trailing zeros, \<open>k\<close> their count and \<open>n\<close> the position of the
  decimal point (\<open>r = s * 10^(n-k)\<close>), the value prints plainly for \<open>-6 < n \<le> 21\<close> and in
  exponent form otherwise. \<open>frac_digits\<close> looks for the number of decimal places; a double
  has at most 1074 of them, and a rational with no finite expansion (which no literal
  denotes) is cut there.
\<close>

fun frac_digits :: "nat \<Rightarrow> nat \<Rightarrow> rat \<Rightarrow> nat" where
  "frac_digits 0 j r = j"
| "frac_digits (Suc fuel) j r =
     (if r * 10 ^ j = of_int \<lfloor>r * 10 ^ j\<rfloor> then j else frac_digits fuel (Suc j) r)"

fun strip_zeros :: "nat \<Rightarrow> nat \<Rightarrow> nat \<times> nat" where
  "strip_zeros 0 m = (m, 0)"
| "strip_zeros (Suc fuel) m =
     (if m \<noteq> 0 \<and> m mod 10 = 0
      then (let (s, t) = strip_zeros fuel (m div 10) in (s, Suc t))
      else (m, 0))"

definition show_exp :: "string \<Rightarrow> int \<Rightarrow> string" where
  "show_exp ds n =
     (let e = n - 1;
          m = (case ds of [] \<Rightarrow> [] | [d] \<Rightarrow> [d] | d # rest \<Rightarrow> d # CHR ''.'' # rest)
      in m @ ''e'' @ (if e < 0 then ''-'' else ''+'') @ show_nat (nat \<bar>e\<bar>))"

definition show_pos :: "rat \<Rightarrow> string" where
  "show_pos r =
     (let j = frac_digits 1074 0 r;
          m = nat \<lfloor>r * 10 ^ j\<rfloor>;
          (s, t) = strip_zeros (length (show_nat m)) m;
          ds = show_nat s;
          k = int (length ds);
          n = k + int t - int j
      in if k \<le> n \<and> n \<le> 21 then ds @ replicate (nat (n - k)) CHR ''0''
         else if 0 < n \<and> n \<le> 21 then take (nat n) ds @ ''.'' @ drop (nat n) ds
         else if -6 < n \<and> n \<le> 0 then ''0.'' @ replicate (nat (- n)) CHR ''0'' @ ds
         else show_exp ds n)"

fun show_num :: "jsnum \<Rightarrow> string" where
  "show_num NaN = ''NaN''"
| "show_num PInf = ''Infinity''"
| "show_num NInf = ''-Infinity''"
| "show_num (Fin r) =
     (if r = 0 then ''0'' else if r < 0 then ''-'' @ show_pos (- r) else show_pos r)"

subsection \<open>String to number\<close>

text \<open>
  \<^verbatim>\<open>Number(s)\<close> on a string (\<^verbatim>\<open>StringToNumber\<close>): white space is trimmed, the empty
  string is 0, then a signed \<^verbatim>\<open>Infinity\<close>, a decimal literal with optional fraction and
  exponent, or an unsigned hexadecimal, octal or binary literal. Everything else is not a
  number.
\<close>

definition digits_val :: "nat \<Rightarrow> string \<Rightarrow> nat" where
  "digits_val base ds = foldl (\<lambda>a c. base * a + digit_val c) 0 ds"

definition all_digits :: "nat \<Rightarrow> string \<Rightarrow> bool" where
  "all_digits base ds = (\<forall>c \<in> set ds. c \<in> set (take base ''0123456789abcdef''))"

definition pow10 :: "int \<Rightarrow> rat" where
  "pow10 e = (if 0 \<le> e then 10 ^ nat e else 1 / 10 ^ nat (- e))"

definition unsigned_decimal :: "string \<Rightarrow> rat option" where
  "unsigned_decimal s =
     (let mant = takeWhile (\<lambda>c. c \<noteq> CHR ''e'' \<and> c \<noteq> CHR ''E'') s;
          ex = dropWhile (\<lambda>c. c \<noteq> CHR ''e'' \<and> c \<noteq> CHR ''E'') s;
          ip = takeWhile is_digit mant;
          after = dropWhile is_digit mant;
          fp = (case after of [] \<Rightarrow> [] | _ # f \<Rightarrow> f);
          mant_ok = ((after = [] \<or> (hd after = CHR ''.'' \<and> all_digits 10 fp)) \<and> (ip \<noteq> [] \<or> fp \<noteq> []));
          ed = (case ex of [] \<Rightarrow> [] | _ # d \<Rightarrow>
                  (case d of [] \<Rightarrow> [] | c # d' \<Rightarrow> if c = CHR ''+'' \<or> c = CHR ''-'' then d' else d));
          eneg = (case ex of _ # c # _ \<Rightarrow> c = CHR ''-'' | _ \<Rightarrow> False);
          ex_ok = (ex = [] \<or> (ed \<noteq> [] \<and> all_digits 10 ed));
          e = (if eneg then - int (digits_val 10 ed) else int (digits_val 10 ed))
      in if mant_ok \<and> ex_ok
         then Some ((of_nat (digits_val 10 ip) + of_nat (digits_val 10 fp) / 10 ^ length fp) * pow10 e)
         else None)"

definition radix_literal :: "string \<Rightarrow> rat option" where
  "radix_literal s =
     (let p = toLowerCase (take 2 s); ds = toLowerCase (drop 2 s);
          base = (if p = ''0x'' then 16 else if p = ''0o'' then 8 else if p = ''0b'' then 2 else 0)
      in if base \<noteq> 0 \<and> ds \<noteq> [] \<and> all_digits base ds then Some (of_nat (digits_val base ds)) else None)"

definition StringToNumber :: "string \<Rightarrow> jsnum" where
  "StringToNumber str =
     (let s = trim str in
      if s = [] then Fin 0
      else if s = ''Infinity'' \<or> s = ''+Infinity'' then PInf
      else if s = ''-Infinity'' then NInf
      else (case radix_literal s of
              Some r \<Rightarrow> Fin r
            | None \<Rightarrow>
               (case s of
                  c # rest \<Rightarrow>
                    if c = CHR ''-'' then (case unsigned_decimal rest of Some r \<Rightarrow> Fin (- r) | None \<Rightarrow> NaN)
                    else if c = CHR ''+'' then (case unsigned_decimal rest of Some r \<Rightarrow> Fin r | None \<Rightarrow> NaN)
                    else (case unsigned_decimal s of Some r \<Rightarrow> Fin r | None \<Rightarrow> NaN)
                | [] \<Rightarrow> Fin 0)))"

subsection \<open>The conversions \<^verbatim>\<open>String(v)\<close> and \<^verbatim>\<open>Number(v)\<close>, and truthiness\<close>

fun String :: "jsval \<Rightarrow> string" where
  "String JUndefined = ''undefined''"
| "String JNull = ''null''"
| "String (JBool b) = (if b then ''true'' else ''false'')"
| "String (JNum n) = show_num n"
| "String (JStr s) = s"
| "String (JArr xs) =
     join '','' (map (\<lambda>x. if x = JUndefined \<or> x = JNull then [] else String x) xs)"
| "String (JObj kvs) = ''[object Object]''"

fun Number :: "jsval \<Rightarrow> jsnum" where
  "Number JUndefined = NaN"
| "Number JNull = Fin 0"
| "Number (JBool b) = (if b then Fin 1 else Fin 0)"
| "Number (JNum n) = n"
| "Number (JStr s) = StringToNumber s"
| "Number (JArr xs) = StringToNumber (String (JArr xs))"
| "Number (JObj kvs) = NaN"

fun truthy :: "jsval \<Rightarrow> bool" where
  "truthy JUndefined = False"
| "truthy JNull = False"
| "truthy (JBool b) = b"
| "truthy (JNum n) = (n \<noteq> NaN \<and> n \<noteq> Fin 0)"
| "truthy (JStr s) = (s \<noteq> [])"
| "truthy (JArr xs) = True"
| "truthy (JObj kvs) = True"


subsection \<open>Objects: property order\<close>

text \<open>
  An object is the list of its own properties in the order \<^verbatim>\<open>Object.keys\<close> and
  \<^verbatim>\<open>for ... in\<close> enumerate them: array-index keys first, ascending, then the other
  keys in creation order. \<open>obj_set\<close> is the assignment \<^verbatim>\<open>o[k] = v\<close>.
\<close>

definition is_array_index :: "string \<Rightarrow> bool" where
  "is_array_index k =
     (k \<noteq> [] \<and> all_digits 10 k \<and> (k = ''0'' \<or> hd k \<noteq> CHR ''0'') \<and> int (digits_val 10 k) < 4294967295)"

fun insert_index :: "nat \<Rightarrow> string \<Rightarrow> 'a \<Rightarrow> (string \<times> 'a) list \<Rightarrow> (string \<times> 'a) list" where
  "insert_index n k v [] = [(k, v)]"
| "insert_index n k v ((k', v') # kvs) =
     (if is_array_index k' \<and> digits_val 10 k' < n
      then (k', v') # insert_index n k v kvs
      else (k, v) # (k', v') # kvs)"

definition obj_set :: "(string \<times> 'a) list \<Rightarrow> string \<Rightarrow> 'a \<Rightarrow> (string \<times> 'a) list" where
  "obj_set kvs k v =
     (if k \<in> set (map fst kvs) then map (\<lambda>(k', v'). if k' = k then (k', v) else (k', v')) kvs
      else if is_array_index k then insert_index (digits_val 10 k) k v kvs
      else kvs @ [(k, v)])"

definition obj_get :: "(string \<times> jsval) list \<Rightarrow> string \<Rightarrow> jsval" where
  "obj_get kvs k = (case map_of kvs k of Some v \<Rightarrow> v | None \<Rightarrow> JUndefined)"

subsection \<open>\<^verbatim>\<open>JSON.parse\<close>\<close>

text \<open>
  \<open>JSON_parse\<close> is \<open>None\<close> where \<^verbatim>\<open>JSON.parse\<close> throws a \<^verbatim>\<open>SyntaxError\<close>. The text is
  cut into tokens, and the tokens drive a pushdown automaton whose stack holds the arrays
  and objects still open. A unicode escape above code 255 has no 8-bit character and is read modulo 256.
\<close>

datatype token =
    TLBrace | TRBrace | TLBrack | TRBrack | TColon | TComma
  | TString string | TNumber rat | TTrue | TFalse | TNull

definition json_escapes :: "(char \<times> char) list" where
  "json_escapes =
     [(CHR 0x22, CHR 0x22), (CHR 0x5C, CHR 0x5C), (CHR ''/'', CHR ''/''), (CHR ''b'', CHR 0x08),
      (CHR ''f'', CHR 0x0C), (CHR ''n'', CHR 0x0A), (CHR ''r'', CHR 0x0D), (CHR ''t'', CHR 0x09)]"

function lex_string :: "string \<Rightarrow> (string \<times> string) option" where
  "lex_string [] = None"
| "lex_string (c # cs) =
     (if c = CHR 0x22 then Some ([], cs)
      else if c = CHR 0x5C then
        (case cs of
           [] \<Rightarrow> None
         | e # cs' \<Rightarrow>
             if e = CHR ''u'' then
               (if 4 \<le> length cs' \<and> all_digits 16 (toLowerCase (take 4 cs'))
                then map_option (\<lambda>(s, r). (char_of (digits_val 16 (toLowerCase (take 4 cs'))) # s, r))
                       (lex_string (drop 4 cs'))
                else None)
             else (case map_of json_escapes e of
                     None \<Rightarrow> None
                   | Some x \<Rightarrow> map_option (\<lambda>(s, r). (x # s, r)) (lex_string cs')))
      else if (of_char c :: nat) < 32 then None
      else map_option (\<lambda>(s, r). (c # s, r)) (lex_string cs))"
  by pat_completeness auto
termination
  by (relation "measure length") auto

definition json_number :: "string \<Rightarrow> rat option" where
  "json_number s =
     (let neg = (s \<noteq> [] \<and> hd s = CHR ''-'');
          body = (if neg then tl s else s);
          mant = takeWhile (\<lambda>c. c \<noteq> CHR ''e'' \<and> c \<noteq> CHR ''E'') body;
          ip = takeWhile is_digit mant;
          after = dropWhile is_digit mant
      in if ip \<noteq> [] \<and> (ip = ''0'' \<or> hd ip \<noteq> CHR ''0'') \<and> (after = [] \<or> 2 \<le> length after)
         then map_option (\<lambda>r. if neg then - r else r) (unsigned_decimal body)
         else None)"

definition is_json_space :: "char \<Rightarrow> bool" where
  "is_json_space c = (c \<in> set [CHR 0x20, CHR 0x09, CHR 0x0A, CHR 0x0D])"

definition is_number_char :: "char \<Rightarrow> bool" where
  "is_number_char c = (c \<in> set ''+-.0123456789eE'')"

lemma lex_string_shorter: "lex_string cs = Some (s, r) \<Longrightarrow> length r \<le> length cs"
proof (induction cs arbitrary: s r rule: lex_string.induct)
  case 1
  then show ?case by simp
next
  case (2 c cs)
  then show ?case
    by (fastforce split: if_splits list.splits option.splits)
qed

function lex :: "string \<Rightarrow> token list option" where
  "lex [] = Some []"
| "lex (c # cs) =
     (if is_json_space c then lex cs
      else if c = CHR ''{'' then map_option ((#) TLBrace) (lex cs)
      else if c = CHR ''}'' then map_option ((#) TRBrace) (lex cs)
      else if c = CHR ''['' then map_option ((#) TLBrack) (lex cs)
      else if c = CHR '']'' then map_option ((#) TRBrack) (lex cs)
      else if c = CHR '':'' then map_option ((#) TColon) (lex cs)
      else if c = CHR '','' then map_option ((#) TComma) (lex cs)
      else if c = CHR 0x22 then
        (case lex_string cs of
           None \<Rightarrow> None
         | Some (s, rest) \<Rightarrow> map_option ((#) (TString s)) (lex rest))
      else if c = CHR ''-'' \<or> is_digit c then
        (case json_number (c # takeWhile is_number_char cs) of
           None \<Rightarrow> None
         | Some r \<Rightarrow> map_option ((#) (TNumber r)) (lex (dropWhile is_number_char cs)))
      else if take 4 (c # cs) = ''true'' then map_option ((#) TTrue) (lex (drop 3 cs))
      else if take 5 (c # cs) = ''false'' then map_option ((#) TFalse) (lex (drop 4 cs))
      else if take 4 (c # cs) = ''null'' then map_option ((#) TNull) (lex (drop 3 cs))
      else None)"
  by pat_completeness auto
termination
  by (relation "measure length")
     (auto simp: le_imp_less_Suc length_dropWhile_le dest: lex_string_shorter)

datatype frame = ArrF "jsval list" | ObjF "(string \<times> jsval) list" "string option"

datatype expect = XValue | XValueOrEnd | XKeyOrEnd | XKey | XColon | XCommaOrEnd | XDone

type_synonym pstate = "frame list \<times> expect \<times> jsval option"

fun deliver :: "jsval \<Rightarrow> frame list \<Rightarrow> pstate option" where
  "deliver v [] = Some ([], XDone, Some v)"
| "deliver v (ArrF xs # st) = Some (ArrF (xs @ [v]) # st, XCommaOrEnd, None)"
| "deliver v (ObjF kvs (Some k) # st) = Some (ObjF (obj_set kvs k v) None # st, XCommaOrEnd, None)"
| "deliver v (ObjF kvs None # st) = None"

definition wants_value :: "expect \<Rightarrow> bool" where
  "wants_value x = (x = XValue \<or> x = XValueOrEnd)"

fun parse_step :: "pstate \<Rightarrow> token \<Rightarrow> pstate option" where
  "parse_step (st, x, res) TLBrack = (if wants_value x then Some (ArrF [] # st, XValueOrEnd, None) else None)"
| "parse_step (st, x, res) TLBrace = (if wants_value x then Some (ObjF [] None # st, XKeyOrEnd, None) else None)"
| "parse_step (st, x, res) (TString s) =
     (if x = XKeyOrEnd \<or> x = XKey then
        (case st of
           ObjF kvs None # st' \<Rightarrow> Some (ObjF kvs (Some s) # st', XColon, None)
         | _ \<Rightarrow> None)
      else if wants_value x then deliver (JStr s) st
      else None)"
| "parse_step (st, x, res) (TNumber r) = (if wants_value x then deliver (JNum (Fin r)) st else None)"
| "parse_step (st, x, res) TTrue = (if wants_value x then deliver (JBool True) st else None)"
| "parse_step (st, x, res) TFalse = (if wants_value x then deliver (JBool False) st else None)"
| "parse_step (st, x, res) TNull = (if wants_value x then deliver JNull st else None)"
| "parse_step (st, x, res) TRBrack =
     (if x = XValueOrEnd \<or> x = XCommaOrEnd then
        (case st of ArrF xs # st' \<Rightarrow> deliver (JArr xs) st' | _ \<Rightarrow> None)
      else None)"
| "parse_step (st, x, res) TRBrace =
     (if x = XKeyOrEnd \<or> x = XCommaOrEnd then
        (case st of ObjF kvs None # st' \<Rightarrow> deliver (JObj kvs) st' | _ \<Rightarrow> None)
      else None)"
| "parse_step (st, x, res) TComma =
     (if x = XCommaOrEnd then
        (case st of
           ArrF xs # st' \<Rightarrow> Some (st, XValue, None)
         | ObjF kvs k # st' \<Rightarrow> Some (st, XKey, None)
         | [] \<Rightarrow> None)
      else None)"
| "parse_step (st, x, res) TColon = (if x = XColon then Some (st, XValue, None) else None)"

fun parse_tokens :: "pstate \<Rightarrow> token list \<Rightarrow> pstate option" where
  "parse_tokens ps [] = Some ps"
| "parse_tokens ps (t # ts) = (case parse_step ps t of None \<Rightarrow> None | Some ps' \<Rightarrow> parse_tokens ps' ts)"

definition JSON_parse :: "string \<Rightarrow> jsval option" where
  "JSON_parse s =
     (case lex s of
        None \<Rightarrow> None
      | Some toks \<Rightarrow>
          (case parse_tokens ([], XValue, None) toks of
             Some ([], XDone, Some v) \<Rightarrow> Some v
           | _ \<Rightarrow> None))"


section \<open>Field normalizer and scalar parsers\<close>

text \<open>\<^verbatim>\<open>name.toLowerCase().replace(/[^a-z0-9]/g, '')\<close>\<close>

definition normalizeFieldName :: "string \<Rightarrow> string" where
  "normalizeFieldName name =
     filter (\<lambda>c. c \<in> set ''abcdefghijklmnopqrstuvwxyz0123456789'') (toLowerCase name)"

text \<open>
  A row of a sheet is an object. \<open>getNormalizedValue\<close> tries the field variations in
  order, and for each one the keys of the row in enumeration order.
\<close>

type_synonym row = "(string \<times> jsval) list"

fun getNormalizedValue :: "row \<Rightarrow> string list \<Rightarrow> jsval" where
  "getNormalizedValue row [] = JUndefined"
| "getNormalizedValue row (field # fieldVariations) =
     (case find (\<lambda>key. normalizeFieldName key = normalizeFieldName field) (map fst row) of
        Some key \<Rightarrow> obj_get row key
      | None \<Rightarrow> getNormalizedValue row fieldVariations)"

text \<open>
  The three parsers return \<open>Some (result, error)\<close>; \<open>None\<close> would be a call that does not
  return (an exception that escapes, or a loop that does not end). \<^verbatim>\<open>JSON.parse\<close> is
  called inside \<^verbatim>\<open>try\<close>, so its exception becomes the error of the \<^verbatim>\<open>catch\<close> branch.
\<close>

definition parseArrayString :: "jsval \<Rightarrow> (string list \<times> string option) option" where
  "parseArrayString v =
     (case v of
        JArr xs \<Rightarrow> Some (map String xs, None)
      | JStr s \<Rightarrow>
          if trim s = [] then Some ([], None)
          else (let trimmed = trim s in
            if startsWith trimmed ''['' \<and> endsWith trimmed '']'' then
              (case JSON_parse trimmed of
                 Some (JArr parsed) \<Rightarrow> Some (map String parsed, None)
               | Some _ \<Rightarrow> Some ([], Some ''Invalid array format.'')
               | None \<Rightarrow> Some ([], Some ''Malformed JSON array.''))
            else Some (filter (\<lambda>s. s \<noteq> [])
                         (map trim (split CHR '','' (map (\<lambda>c. if c = CHR 0x0A then CHR '','' else c) trimmed))),
                       None))
      | _ \<Rightarrow> Some ([], None))"

definition msg_must_be_object :: string where
  "msg_must_be_object =
     ''Value must be a valid JSON object (e.g., {'' @ [CHR 0x22] @ ''key'' @ [CHR 0x22] @ '':''
       @ [CHR 0x22] @ ''value'' @ [CHR 0x22] @ ''}).''"

definition parseJsonString :: "jsval \<Rightarrow> ((string \<times> jsval) list option \<times> string option) option" where
  "parseJsonString v =
     (case v of
        JObj kvs \<Rightarrow> Some (Some kvs, None)
      | JStr s \<Rightarrow>
          if trim s = [] then Some (None, None)
          else (let trimmed = trim s in
            if \<not> startsWith trimmed ''{'' \<or> \<not> endsWith trimmed ''}'' then Some (None, Some msg_must_be_object)
            else
              (case JSON_parse trimmed of
                 Some (JObj parsed) \<Rightarrow> Some (Some parsed, None)
               | Some _ \<Rightarrow> Some (None, Some ''Value is not a valid JSON object.'')
               | None \<Rightarrow> Some (None, Some ''Malformed JSON object.'')))
      | _ \<Rightarrow> Some (None, None))"

text \<open>
  The range loop \<^verbatim>\<open>for (let i = start; i <= end; i++) phases.push(i)\<close>. Nothing bounds
  \<open>end\<close>, so the loop is a partial function: \<open>None\<close> where it never leaves. The counter
  is an exact number here and the list has no bound; the source counts in doubles and
  pushes on an array, so the two agree while the counter is a whole number below \<open>2^53\<close>
  and the array fits the engine.
\<close>

partial_function (option) range_loop :: "jsnum \<Rightarrow> jsnum \<Rightarrow> jsnum list \<Rightarrow> jsnum list option" where
  "range_loop i end_num phases =
     (if js_le i end_num then range_loop (js_add i (Fin 1)) end_num (phases @ [i]) else Some phases)"

declare range_loop.simps [code]

definition msg_invalid_range :: string where
  "msg_invalid_range = ''Invalid range format (e.g., '' @ [CHR 0x22] @ ''1-5'' @ [CHR 0x22] @ '').''"

text \<open>The two \<^verbatim>\<open>forEach\<close> bodies of the phase parser, on the pair (phases, error).\<close>

definition phase_json_item :: "jsnum list \<times> string option \<Rightarrow> jsval \<Rightarrow> jsnum list \<times> string option" where
  "phase_json_item st item =
     (let num = Number item
      in if \<not> isNaN num then (fst st @ [num], snd st) else (fst st, Some ''Contains non-numeric values.''))"

definition phase_list_item :: "jsnum list \<times> string option \<Rightarrow> string \<Rightarrow> jsnum list \<times> string option" where
  "phase_list_item st item =
     (let num = Number (JStr (trim item))
      in if \<not> isNaN num \<and> trim item \<noteq> [] then (fst st @ [num], snd st)
         else if trim item \<noteq> [] then (fst st, Some ''Contains non-numeric values or invalid format.'')
         else st)"

text \<open>\<^verbatim>\<open>if (error)\<close> on a value of type \<^verbatim>\<open>string | null\<close>.\<close>

fun truthy_str :: "string option \<Rightarrow> bool" where
  "truthy_str None = False"
| "truthy_str (Some e) = (e \<noteq> [])"

text \<open>
  \<open>phase_forms\<close> is the \<^verbatim>\<open>if\<close> chain over the three string forms, giving the local
  variables \<^verbatim>\<open>phases\<close> and \<^verbatim>\<open>error\<close> as they stand before the final \<^verbatim>\<open>if (error)\<close>.
\<close>

definition phase_forms :: "string \<Rightarrow> (jsnum list \<times> string option) option" where
  "phase_forms trimmed =
     (if startsWith trimmed ''['' \<and> endsWith trimmed '']'' then
        (case JSON_parse trimmed of
           Some (JArr parsed) \<Rightarrow> Some (foldl phase_json_item ([], None) parsed)
         | Some _ \<Rightarrow> Some ([], Some ''Invalid array format.'')
         | None \<Rightarrow> Some ([], Some ''Malformed JSON array.''))
      else if CHR ''-'' \<in> set trimmed then
        (case map trim (split CHR ''-'' trimmed) of
           [p0, p1] \<Rightarrow>
             (let start = Number (JStr p0); end_num = Number (JStr p1)
              in if \<not> isNaN start \<and> \<not> isNaN end_num \<and> js_le start end_num
                 then map_option (\<lambda>ps. (ps, None)) (range_loop start end_num [])
                 else Some ([], Some msg_invalid_range))
         | _ \<Rightarrow> Some ([], Some msg_invalid_range))
      else Some (foldl phase_list_item ([], None) (split CHR '','' trimmed)))"

definition parsePhaseString :: "jsval \<Rightarrow> (jsnum list \<times> string option) option" where
  "parsePhaseString v =
     (case v of
        JArr xs \<Rightarrow> Some (filter (\<lambda>n. \<not> isNaN n) (map Number xs), None)
      | JStr s \<Rightarrow>
          if trim s = [] then Some ([], None)
          else do {
            (phases, err) \<leftarrow> phase_forms (trim s);
            if truthy_str err then Some ([], err) else Some (phases, None)
          }
      | _ \<Rightarrow> Some ([], None))"

section \<open>Diagnostics, sheets and rules\<close>

datatype EntityType = clients | workers | tasks

datatype ValidationLevel = error | warning | info

text \<open>The field \<^verbatim>\<open>id\<close> of a diagnostic is \<open>err_id\<close> here; \<open>fixed\<close> is optional in the source.\<close>

record ValidationError =
  err_id :: string
  entity :: EntityType
  rowIndex :: int
  field :: string
  message :: string
  level :: ValidationLevel
  fixed :: "bool option"

datatype RuleType = coRun | slotRestriction | loadLimit | phaseWindow | patternMatch | precedenceOverride

record Rule =
  rule_id :: string
  rule_type :: RuleType
  rule_tasks :: "string list option"
  clientGroup :: "string option"
  workerGroup :: "string option"
  minCommonSlots :: "jsnum option"
  maxSlotsPerPhase :: "jsnum option"
  allowedPhases :: "jsnum list option"
  rule_pattern :: "string option"
  rule_parameters :: "jsval option"
  rule_priority :: "jsnum option"
  active :: bool

record SheetData =
  sheet_name :: string
  headers :: "string list"
  jsonData :: "row list"

text \<open>
  \<^verbatim>\<open>Record<EntityType, SheetData>\<close>: one sheet per entity, enumerated by
  \<^verbatim>\<open>Object.keys\<close> in the order the state was built in.
\<close>

type_synonym sheets = "EntityType \<Rightarrow> SheetData"

definition entity_keys :: "EntityType list" where
  "entity_keys = [clients, workers, tasks]"

fun entity_name :: "EntityType \<Rightarrow> string" where
  "entity_name clients = ''clients''"
| "entity_name workers = ''workers''"
| "entity_name tasks = ''tasks''"

fun REQUIRED_COLUMNS :: "EntityType \<Rightarrow> string list" where
  "REQUIRED_COLUMNS clients = [''id'', ''priorityLevel'']"
| "REQUIRED_COLUMNS workers = [''id'', ''availableSlots'', ''maxLoadPerPhase'']"
| "REQUIRED_COLUMNS tasks = [''id'', ''duration'', ''requiredSkills'']"

definition show_int :: "int \<Rightarrow> string" where
  "show_int i = show_num (Fin (of_int i))"

text \<open>
  \<^verbatim>\<open>createError\<close> is declared twice in the source (in \<^verbatim>\<open>validateRow\<close>, closed over the
  entity and the row index, and in \<^verbatim>\<open>validateAllData\<close>) with one body.
\<close>

definition createError :: "EntityType \<Rightarrow> int \<Rightarrow> string \<Rightarrow> string \<Rightarrow> ValidationLevel \<Rightarrow> ValidationError" where
  "createError ent idx fld msg lvl =
     \<lparr> err_id = entity_name ent @ ''-'' @ show_int idx @ ''-'' @ fld @ ''-'' @ msg,
       entity = ent, rowIndex = idx, field = fld, message = msg, level = lvl, fixed = None \<rparr>"

text \<open>A \<^verbatim>\<open>forEach\<close> whose body appends diagnostics and may itself not return.\<close>

fun collect :: "('a \<Rightarrow> 'b list option) \<Rightarrow> 'a list \<Rightarrow> 'b list option" where
  "collect f [] = Some []"
| "collect f (x # xs) = do { ys \<leftarrow> f x; zs \<leftarrow> collect f xs; Some (ys @ zs) }"

fun count_where :: "('a \<Rightarrow> bool option) \<Rightarrow> 'a list \<Rightarrow> nat option" where
  "count_where f [] = Some 0"
| "count_where f (x # xs) = do { b \<leftarrow> f x; n \<leftarrow> count_where f xs; Some (if b then Suc n else n) }"

section \<open>Row validator\<close>

definition dq :: string where
  "dq = [CHR 0x22]"

definition json_column_errors :: "EntityType \<Rightarrow> nat \<Rightarrow> row \<Rightarrow> ValidationError list option" where
  "json_column_errors ent idx row =
     collect (\<lambda>key.
        if includes_str (normalizeFieldName key) ''json'' then do {
          (result, err) \<leftarrow> parseJsonString (obj_get row key);
          Some (if truthy_str err then [createError ent (int idx) key (the err) error] else [])
        } else Some []) (map fst row)"

definition priority_out_of_range :: "jsval \<Rightarrow> bool" where
  "priority_out_of_range priority =
     (priority \<noteq> JUndefined \<and> (js_lt (Number priority) (Fin 1) \<or> js_gt (Number priority) (Fin 5)))"

definition validate_client :: "row \<Rightarrow> nat \<Rightarrow> sheets \<Rightarrow> ValidationError list option" where
  "validate_client row idx allSheets = do {
     let priority = getNormalizedValue row [''priorityLevel'', ''priority''];
     let e1 = (if priority_out_of_range priority
               then [createError clients (int idx) ''priorityLevel'' ''Priority must be 1-5.'' error] else []);
     (requestedTasks, taskError) \<leftarrow>
        parseArrayString (getNormalizedValue row [''requestedTasks'', ''requestedTaskIDs'']);
     Some (e1 @
       (if truthy_str taskError then [createError clients (int idx) ''requestedTasks'' (the taskError) error]
        else concat (map (\<lambda>taskId.
               if \<not> list_ex (\<lambda>t. String (getNormalizedValue t [''id'', ''taskId'']) = String (JStr taskId))
                              (jsonData (allSheets tasks))
               then [createError clients (int idx) ''requestedTasks''
                       (''Task ID '' @ dq @ taskId @ dq @ '' not found.'') error]
               else []) requestedTasks)))
   }"

definition validate_worker :: "row \<Rightarrow> nat \<Rightarrow> sheets \<Rightarrow> ValidationError list option" where
  "validate_worker row idx allSheets = do {
     (availableSlots, slotError) \<leftarrow> parseArrayString (getNormalizedValue row [''availableSlots'', ''slots'']);
     let e1 = (if truthy_str slotError then [createError workers (int idx) ''availableSlots'' (the slotError) error]
               else if list_ex (\<lambda>s. isNaN (Number (JStr s))) availableSlots
               then [createError workers (int idx) ''availableSlots'' ''Must be a list of numbers.'' error]
               else []);
     let maxLoad = getNormalizedValue row [''maxLoad'', ''maxLoadPerPhase''];
     let e2 = (if maxLoad \<noteq> JUndefined \<and> js_gt (Number maxLoad) (num_of_nat (length availableSlots))
               then [createError workers (int idx) ''maxLoadPerPhase''
                       (''MaxLoad ('' @ String maxLoad @ '') > available slots (''
                          @ show_num (num_of_nat (length availableSlots)) @ '').'') error]
               else []);
     (skills, skillError) \<leftarrow> parseArrayString (getNormalizedValue row [''skills'', ''workerSkills'']);
     Some (e1 @ e2 @
       (if truthy_str skillError then [createError workers (int idx) ''skills'' (the skillError) error] else []))
   }"

definition worker_qualifies :: "string list \<Rightarrow> row \<Rightarrow> bool option" where
  "worker_qualifies requiredSkills w = do {
     (workerSkills, e1) \<leftarrow> parseArrayString (getNormalizedValue w [''skills'', ''workerSkills'']);
     (availableSlots, e2) \<leftarrow> parseArrayString (getNormalizedValue w [''availableSlots'', ''slots'']);
     Some (list_all (\<lambda>s. s \<in> set workerSkills) requiredSkills \<and> 0 < length availableSlots)
   }"

text \<open>The block under \<^verbatim>\<open>if (maxConcurrent)\<close>.\<close>

definition max_concurrent_errors :: "row \<Rightarrow> nat \<Rightarrow> sheets \<Rightarrow> ValidationError list option" where
  "max_concurrent_errors row idx allSheets =
     (let maxConcurrent = getNormalizedValue row [''maxConcurrent'', ''maxConcurrentTasks'']
      in if truthy maxConcurrent then do {
           (requiredSkills, skillError) \<leftarrow> parseArrayString (getNormalizedValue row [''skills'', ''requiredSkills'']);
           if truthy_str skillError then Some [createError tasks (int idx) ''skills'' (the skillError) error]
           else do {
             qualifiedAndAvailableWorkers \<leftarrow> count_where (worker_qualifies requiredSkills) (jsonData (allSheets workers));
             Some (if js_gt (Number maxConcurrent) (num_of_nat qualifiedAndAvailableWorkers)
                   then [createError tasks (int idx) ''maxConcurrent''
                           (''MaxConcurrent ('' @ String maxConcurrent @ '') > qualified, available workers (''
                              @ show_num (num_of_nat qualifiedAndAvailableWorkers) @ '').'') error]
                   else [])
           }
         } else Some [])"

definition validate_task :: "row \<Rightarrow> nat \<Rightarrow> sheets \<Rightarrow> ValidationError list option" where
  "validate_task row idx allSheets = do {
     let priority = getNormalizedValue row [''priority'', ''priorityLevel''];
     let e1 = (if priority_out_of_range priority
               then [createError tasks (int idx) ''priority'' ''Priority must be 1-5.'' error] else []);
     let duration = getNormalizedValue row [''duration'', ''taskDuration''];
     let e2 = (if duration \<noteq> JUndefined \<and> js_lt (Number duration) (Fin 1)
               then [createError tasks (int idx) ''duration'' ''Duration must be >= 1.'' error] else []);
     (preferredPhases, phaseError) \<leftarrow> parsePhaseString (getNormalizedValue row [''preferredPhases'', ''phases'']);
     let e3 = (if truthy_str phaseError then [createError tasks (int idx) ''preferredPhases'' (the phaseError) error]
               else if list_ex (\<lambda>p. js_lt p (Fin 1)) preferredPhases
               then [createError tasks (int idx) ''preferredPhases'' ''Phases must be positive integers.'' error]
               else []);
     e4 \<leftarrow> max_concurrent_errors row idx allSheets;
     Some (e1 @ e2 @ e3 @ e4)
   }"

definition validateRow :: "EntityType \<Rightarrow> row \<Rightarrow> nat \<Rightarrow> sheets \<Rightarrow> ValidationError list option" where
  "validateRow ent row idx allSheets = do {
     jsonErrors \<leftarrow> json_column_errors ent idx row;
     entityErrors \<leftarrow> (case ent of
                       clients \<Rightarrow> validate_client row idx allSheets
                     | workers \<Rightarrow> validate_worker row idx allSheets
                     | tasks \<Rightarrow> validate_task row idx allSheets);
     Some (jsonErrors @ entityErrors)
   }"


section \<open>Dataset validator\<close>

subsection \<open>Schema check\<close>

definition schema_errors :: "sheets \<Rightarrow> ValidationError list" where
  "schema_errors currentSheets =
     concat (map (\<lambda>ent.
        if 0 < length (jsonData (currentSheets ent)) then
          (let hdrs = map normalizeFieldName (headers (currentSheets ent));
               required = REQUIRED_COLUMNS ent;
               missing = filter (\<lambda>col. normalizeFieldName col \<notin> set hdrs) required
           in if 0 < length missing
              then [createError ent (- 1) ''File'' (''Missing required columns: '' @ join '', '' missing) error]
              else [])
        else []) entity_keys)"

subsection \<open>Duplicate-id check\<close>

text \<open>\<^verbatim>\<open>entity.slice(0, -1)\<close> followed by the three suffixes.\<close>

definition id_fields :: "EntityType \<Rightarrow> string list" where
  "id_fields ent =
     [''id'', butlast (entity_name ent) @ ''Id'', butlast (entity_name ent) @ ''ID'',
      butlast (entity_name ent) @ ''_id'']"

text \<open>
  The body of the inner \<^verbatim>\<open>forEach\<close>, with the map \<^verbatim>\<open>ids\<close> and the index passed along:
  the diagnostics of the rows from \<open>index\<close> on.
\<close>

fun duplicate_loop :: "EntityType \<Rightarrow> (string \<rightharpoonup> nat) \<Rightarrow> nat \<Rightarrow> row list \<Rightarrow> ValidationError list" where
  "duplicate_loop ent ids index [] = []"
| "duplicate_loop ent ids index (row # rows) =
     (let id = getNormalizedValue row (id_fields ent)
      in if id \<noteq> JUndefined \<and> id \<noteq> JNull \<and> trim (String id) \<noteq> [] then
           (case ids (String id) of
              Some first \<Rightarrow>
                createError ent (int index) ''id''
                  (''Duplicate ID '' @ dq @ String id @ dq @ '' also found at row ''
                     @ show_num (js_add (num_of_nat first) (Fin 1))) error
                # duplicate_loop ent ids (Suc index) rows
            | None \<Rightarrow> duplicate_loop ent (ids(String id \<mapsto> index)) (Suc index) rows)
         else duplicate_loop ent ids (Suc index) rows)"

definition duplicate_errors :: "sheets \<Rightarrow> ValidationError list" where
  "duplicate_errors currentSheets =
     concat (map (\<lambda>ent. duplicate_loop ent Map.empty 0 (jsonData (currentSheets ent))) entity_keys)"

subsection \<open>Row validation\<close>

definition row_errors :: "sheets \<Rightarrow> ValidationError list option" where
  "row_errors currentSheets =
     collect (\<lambda>ent.
        collect (\<lambda>(rowIndex, row). validateRow ent row rowIndex currentSheets)
                (enumerate 0 (jsonData (currentSheets ent)))) entity_keys"

subsection \<open>Phase-capacity accounting\<close>

text \<open>\<^verbatim>\<open>x || 0\<close> on a table entry: absent, zero and not-a-number all give 0.\<close>

fun or_zero :: "jsnum option \<Rightarrow> jsnum" where
  "or_zero None = Fin 0"
| "or_zero (Some n) = (if n = NaN \<or> n = Fin 0 then Fin 0 else n)"

definition count_slot :: "(string \<rightharpoonup> jsnum) \<Rightarrow> string \<Rightarrow> (string \<rightharpoonup> jsnum)" where
  "count_slot phaseSlots slot =
     (let slotNum = Number (JStr slot)
      in if \<not> isNaN slotNum
         then phaseSlots(show_num slotNum \<mapsto> js_add (or_zero (phaseSlots (show_num slotNum))) (Fin 1))
         else phaseSlots)"

fun build_phaseSlots :: "(string \<rightharpoonup> jsnum) \<Rightarrow> row list \<Rightarrow> (string \<rightharpoonup> jsnum) option" where
  "build_phaseSlots phaseSlots [] = Some phaseSlots"
| "build_phaseSlots phaseSlots (worker # ws) = do {
     (slots, err) \<leftarrow> parseArrayString (getNormalizedValue worker [''availableSlots'', ''slots'']);
     build_phaseSlots (foldl count_slot phaseSlots slots) ws
   }"

text \<open>
  \<^verbatim>\<open>phaseRequirements\<close> is enumerated by \<^verbatim>\<open>Object.entries\<close>, so it keeps its property
  order. The key of \<^verbatim>\<open>phaseRequirements[phase]\<close> is the string of the cell. It is a plain
  object: the read of a key it does not own falls through to \<^verbatim>\<open>Object.prototype\<close>, and
  for the names \<open>object_members\<close> it gives a built-in function (for \<^verbatim>\<open>__proto__\<close> the
  prototype object). That value is truthy, so \<^verbatim>\<open>|| 0\<close> keeps it, and \<^verbatim>\<open>+\<close> splices it
  with the duration into a text, which is stored and spliced again by later tasks of the
  same phase. Such a text begins with the source text of the built-in and does not read
  as a number; the model keeps that fact alone (\<open>TextTotal\<close>). An assignment of a text to
  \<^verbatim>\<open>__proto__\<close> is dropped by its setter. (The keys of \<^verbatim>\<open>phaseSlots\<close> are printed
  numbers, none of them a member name.)
\<close>

definition object_members :: "string list" where
  "object_members =
     [''constructor'', ''__defineGetter__'', ''__defineSetter__'', ''hasOwnProperty'',
      ''__lookupGetter__'', ''__lookupSetter__'', ''isPrototypeOf'', ''propertyIsEnumerable'',
      ''toString'', ''valueOf'', ''__proto__'', ''toLocaleString'']"

datatype total = NumTotal jsnum | TextTotal

text \<open>\<^verbatim>\<open>(phaseRequirements[phase] || 0) + n\<close>, on what the read gives (\<open>None\<close>: undefined).\<close>

fun add_total :: "total option \<Rightarrow> jsnum \<Rightarrow> total" where
  "add_total None n = NumTotal (js_add (Fin 0) n)"
| "add_total (Some (NumTotal m)) n = NumTotal (js_add (or_zero (Some m)) n)"
| "add_total (Some TextTotal) n = TextTotal"

definition read_total :: "(string \<times> total) list \<Rightarrow> string \<Rightarrow> total option" where
  "read_total phaseRequirements key =
     (case map_of phaseRequirements key of
        Some v \<Rightarrow> Some v
      | None \<Rightarrow> if key \<in> set object_members then Some TextTotal else None)"

definition add_requirement :: "(string \<times> total) list \<Rightarrow> row \<Rightarrow> (string \<times> total) list" where
  "add_requirement phaseRequirements task =
     (let d = getNormalizedValue task [''duration'', ''taskDuration''];
          duration = (if truthy d then d else JNum (Fin 1));
          phase = getNormalizedValue task [''phase'', ''taskPhase'']
      in if phase \<noteq> JUndefined
         then (let v = add_total (read_total phaseRequirements (String phase)) (Number duration)
               in if String phase = ''__proto__'' then phaseRequirements
                  else obj_set phaseRequirements (String phase) v)
         else phaseRequirements)"

text \<open>\<^verbatim>\<open>required > available\<close> is false on a text total, which reads as not-a-number.\<close>

definition saturation_error :: "(string \<rightharpoonup> jsnum) \<Rightarrow> string \<times> total \<Rightarrow> ValidationError list" where
  "saturation_error phaseSlots entry =
     (let phase = fst entry;
          available = or_zero (phaseSlots (show_num (Number (JStr phase))))
      in case snd entry of
           NumTotal required \<Rightarrow>
             if js_gt required available
             then [createError tasks (- 1) ''Phase Saturation''
                     (''Phase '' @ phase @ '' overloaded: requires '' @ show_num required
                        @ '' slots, but only '' @ show_num available @ '' are available.'') error]
             else []
         | TextTotal \<Rightarrow> [])"

definition phase_errors :: "sheets \<Rightarrow> ValidationError list option" where
  "phase_errors currentSheets = do {
     phaseSlots \<leftarrow> build_phaseSlots Map.empty (jsonData (currentSheets workers));
     let phaseRequirements = foldl add_requirement [] (jsonData (currentSheets tasks));
     Some (concat (map (saturation_error phaseSlots) phaseRequirements))
   }"

subsection \<open>Skill coverage\<close>

text \<open>The elements of \<^verbatim>\<open>new Set(xs)\<close> in iteration order: first occurrences.\<close>

definition set_order :: "'a list \<Rightarrow> 'a list" where
  "set_order xs = rev (remdups (rev xs))"

definition skill_errors :: "sheets \<Rightarrow> ValidationError list option" where
  "skill_errors currentSheets = do {
     required \<leftarrow> collect (\<lambda>t. map_option fst (parseArrayString (getNormalizedValue t [''skills'', ''requiredSkills'']))) 
                   (jsonData (currentSheets tasks));
     provided \<leftarrow> collect (\<lambda>w. map_option fst (parseArrayString (getNormalizedValue w [''skills'', ''workerSkills''])))
                   (jsonData (currentSheets workers));
     Some (concat (map (\<lambda>skill.
        if skill \<notin> set provided
        then [createError tasks (- 1) ''Skill Coverage''
                (''Skill '' @ dq @ skill @ dq @ '' is required by tasks but not provided by any worker.'') warning]
        else []) (set_order required)))
   }"


section \<open>Rule engine\<close>

subsection \<open>Co-run cycle detection\<close>

text \<open>\<^verbatim>\<open>graph.get(taskId) || []\<close>\<close>

definition graph_get :: "(string \<rightharpoonup> string list) \<Rightarrow> string \<Rightarrow> string list" where
  "graph_get graph taskId = (case graph taskId of Some ds \<Rightarrow> ds | None \<Rightarrow> [])"

text \<open>
  \<^verbatim>\<open>detectCycle\<close> marks its task in \<^verbatim>\<open>visited\<close> and \<^verbatim>\<open>recursionStack\<close>, walks the
  dependencies and takes the task off the stack again. \<open>detect_deps\<close> is that walk from
  some position of the \<^verbatim>\<open>for\<close> loop on, the two sets passed along as a pair; it calls
  the body of \<^verbatim>\<open>detectCycle\<close> on a dependency not yet visited. The recursion is the
  source's own, so it is a partial function.
\<close>

partial_function (option) detect_deps ::
  "(string \<rightharpoonup> string list) \<Rightarrow> string \<Rightarrow> string list \<Rightarrow> string set \<times> string set
     \<Rightarrow> (bool \<times> string set \<times> string set) option" where
  "detect_deps graph taskId dependencies st =
     (case dependencies of
        [] \<Rightarrow> Some (False, fst st, snd st - {taskId})
      | depId # rest \<Rightarrow>
          if depId \<notin> fst st then
            Option.bind
              (detect_deps graph depId (graph_get graph depId) (insert depId (fst st), insert depId (snd st)))
              (\<lambda>r. if fst r then Some (True, snd r) else detect_deps graph taskId rest (snd r))
          else if depId \<in> snd st then Some (True, st)
          else detect_deps graph taskId rest st)"

declare detect_deps.simps [code]

definition detectCycle ::
  "(string \<rightharpoonup> string list) \<Rightarrow> string \<Rightarrow> string set \<times> string set \<Rightarrow> (bool \<times> string set \<times> string set) option" where
  "detectCycle graph taskId st =
     detect_deps graph taskId (graph_get graph taskId) (insert taskId (fst st), insert taskId (snd st))"

text \<open>One step of \<^verbatim>\<open>rule.tasks.forEach\<close>: the node of a task found in the sheet.\<close>

definition add_node ::
  "row list \<Rightarrow> string list \<Rightarrow> (string \<rightharpoonup> string list) \<Rightarrow> string \<Rightarrow> (string \<rightharpoonup> string list) option" where
  "add_node taskRows ruleTasks graph taskId =
     (case find (\<lambda>t. String (getNormalizedValue t [''id'', ''taskId'']) = String (JStr taskId)) taskRows of
        Some task \<Rightarrow> do {
          (deps, err) \<leftarrow> parseArrayString (getNormalizedValue task [''dependencies'', ''dependsOn'']);
          Some (graph(taskId \<mapsto> filter (\<lambda>d. d \<in> set ruleTasks) deps))
        }
      | None \<Rightarrow> Some graph)"

fun build_graph ::
  "row list \<Rightarrow> string list \<Rightarrow> (string \<rightharpoonup> string list) \<Rightarrow> string list \<Rightarrow> (string \<rightharpoonup> string list) option" where
  "build_graph taskRows ruleTasks graph [] = Some graph"
| "build_graph taskRows ruleTasks graph (taskId # rest) = do {
     graph' \<leftarrow> add_node taskRows ruleTasks graph taskId;
     build_graph taskRows ruleTasks graph' rest
   }"

text \<open>The final \<^verbatim>\<open>for\<close> loop over the tasks of the rule, left at the first cycle.\<close>

fun scan_tasks ::
  "(string \<rightharpoonup> string list) \<Rightarrow> string set \<times> string set \<Rightarrow> string list \<Rightarrow> bool option" where
  "scan_tasks graph st [] = Some False"
| "scan_tasks graph st (taskId # rest) =
     (if taskId \<notin> fst st then
        (case detectCycle graph taskId st of
           None \<Rightarrow> None
         | Some r \<Rightarrow> if fst r then Some True else scan_tasks graph (snd r) rest)
      else scan_tasks graph st rest)"

definition corun_rule_errors :: "sheets \<Rightarrow> string list \<Rightarrow> ValidationError list option" where
  "corun_rule_errors currentSheets ruleTasks = do {
     graph \<leftarrow> build_graph (jsonData (currentSheets tasks)) ruleTasks Map.empty ruleTasks;
     found \<leftarrow> scan_tasks graph ({}, {}) ruleTasks;
     Some (if found
           then [createError tasks (- 1) ''Rules''
                   (''Circular dependency in co-run rule: '' @ join '', '' ruleTasks) error]
           else [])
   }"

definition is_checked_corun :: "Rule \<Rightarrow> bool" where
  "is_checked_corun r =
     (rule_type r = coRun \<and> active r \<and> (case rule_tasks r of Some ts \<Rightarrow> 1 < length ts | None \<Rightarrow> False))"

definition corun_errors :: "Rule list \<Rightarrow> sheets \<Rightarrow> ValidationError list option" where
  "corun_errors rules currentSheets =
     collect (\<lambda>r. corun_rule_errors currentSheets (case rule_tasks r of Some ts \<Rightarrow> ts | None \<Rightarrow> []))
             (filter is_checked_corun rules)"

subsection \<open>Slot-restriction references\<close>

definition slot_rule_errors :: "sheets \<Rightarrow> Rule \<Rightarrow> ValidationError list" where
  "slot_rule_errors currentSheets r =
     (case clientGroup r of
        Some g \<Rightarrow>
          if g \<noteq> [] \<and> \<not> list_ex (\<lambda>client. String (getNormalizedValue client [''groupTag'', ''clientGroup'']) = g)
                                  (jsonData (currentSheets clients))
          then [createError clients (- 1) ''Rules''
                  (''Slot Restriction rule references non-existent client group: '' @ g @ ''.'') warning]
          else []
      | None \<Rightarrow> [])
     @
     (case workerGroup r of
        Some g \<Rightarrow>
          if g \<noteq> [] \<and> \<not> list_ex (\<lambda>worker. String (getNormalizedValue worker [''workerGroup'', ''groupTag'']) = g)
                                  (jsonData (currentSheets workers))
          then [createError workers (- 1) ''Rules''
                  (''Slot Restriction rule references non-existent worker group: '' @ g @ ''.'') warning]
          else []
      | None \<Rightarrow> [])"

definition slot_errors :: "Rule list \<Rightarrow> sheets \<Rightarrow> ValidationError list" where
  "slot_errors rules currentSheets =
     concat (map (slot_rule_errors currentSheets) (filter (\<lambda>r. rule_type r = slotRestriction \<and> active r) rules))"

section \<open>The validation pass and the cell edit\<close>

text \<open>
  \<open>all_errors\<close> is the list \<^verbatim>\<open>allErrors\<close> at the end of \<^verbatim>\<open>validateAllData\<close>: every stage
  appends to it, in this order. The component state the pass and the edit touch is the
  record \<open>Dashboard\<close>; \<^verbatim>\<open>localStorage\<close> is written but never read by them and is left out.
\<close>

definition all_errors :: "Rule list \<Rightarrow> sheets \<Rightarrow> ValidationError list option" where
  "all_errors rules currentSheets = do {
     rowErrs \<leftarrow> row_errors currentSheets;
     phaseErrs \<leftarrow> phase_errors currentSheets;
     skillErrs \<leftarrow> skill_errors currentSheets;
     corunErrs \<leftarrow> corun_errors rules currentSheets;
     Some (schema_errors currentSheets @ duplicate_errors currentSheets @ rowErrs @ phaseErrs @ skillErrs
             @ corunErrs @ slot_errors rules currentSheets)
   }"

record Dashboard =
  sheets :: sheets
  rules :: "Rule list"
  validationErrors :: "ValidationError list"
  validationProgress :: nat

definition validateAllData :: "sheets \<Rightarrow> Dashboard \<Rightarrow> Dashboard option" where
  "validateAllData currentSheets st = do {
     allErrors \<leftarrow> all_errors (rules st) currentSheets;
     Some (st\<lparr>validationErrors := allErrors, validationProgress := 100\<rparr>)
   }"

text \<open>
  \<^verbatim>\<open>handleCellEdit\<close>: \<^verbatim>\<open>Object.keys(item)\<close> throws on a row index out of range. The key
  written is the first key of the row that normalizes like the header, or the header
  itself (also when that key is the empty string, which is falsy).
\<close>

definition keyToUpdate :: "row \<Rightarrow> string \<Rightarrow> string" where
  "keyToUpdate item header =
     (case find (\<lambda>k. normalizeFieldName k = normalizeFieldName header) (map fst item) of
        Some k \<Rightarrow> if k \<noteq> [] then k else header
      | None \<Rightarrow> header)"

definition edit_sheets :: "sheets \<Rightarrow> EntityType \<Rightarrow> nat \<Rightarrow> string \<Rightarrow> string \<Rightarrow> sheets" where
  "edit_sheets old ent idx header v =
     (let item = jsonData (old ent) ! idx
      in old(ent := (old ent)\<lparr>jsonData := (jsonData (old ent))[idx := obj_set item (keyToUpdate item header) (JStr v)]\<rparr>))"

definition handleCellEdit :: "EntityType \<Rightarrow> nat \<Rightarrow> string \<Rightarrow> string \<Rightarrow> Dashboard \<Rightarrow> Dashboard option" where
  "handleCellEdit ent idx header v st =
     (if idx < length (jsonData (sheets st ent)) then
        (let newSheets = edit_sheets (sheets st) ent idx header v
         in validateAllData newSheets (st\<lparr>sheets := newSheets\<rparr>))
      else None)"

section \<open>Notions the statements use\<close>

subsection \<open>Duplicate ids\<close>

text \<open>
  The key a row is registered under: the string of its id, unless the id is undefined,
  null or blank. \<open>first_row\<close> is the position of the first row with a given key, and
  \<open>duplicate_of_row\<close> the diagnostic a row owes when that position is an earlier one.
\<close>

definition id_key :: "EntityType \<Rightarrow> row \<Rightarrow> string option" where
  "id_key ent row =
     (let id = getNormalizedValue row (id_fields ent)
      in if id \<noteq> JUndefined \<and> id \<noteq> JNull \<and> trim (String id) \<noteq> [] then Some (String id) else None)"




definition blank_id :: "EntityType \<Rightarrow> row \<Rightarrow> bool" where
  "blank_id ent row =
     (case getNormalizedValue row (id_fields ent) of
        JUndefined \<Rightarrow> True
      | JNull \<Rightarrow> True
      | JStr s \<Rightarrow> trim s = []
      | _ \<Rightarrow> False)"


subsection \<open>Phase-list forms\<close>

text \<open>
  A string is in array form when it is bracketed. A range is invalid when its pieces
  between \<^verbatim>\<open>-\<close> are not exactly two, when \<^verbatim>\<open>Number\<close> reads a piece as not-a-number,
  or when the start is greater than the end. (\<^verbatim>\<open>Number\<close> reads an empty piece as 0.)
\<close>

definition msg_non_numeric :: string where
  "msg_non_numeric = ''Contains non-numeric values or invalid format.''"

definition bracketed :: "string \<Rightarrow> bool" where
  "bracketed t = (startsWith t ''['' \<and> endsWith t '']'')"

definition invalid_range :: "string \<Rightarrow> bool" where
  "invalid_range t =
     (case map trim (split CHR ''-'' t) of
        [p0, p1] \<Rightarrow> isNaN (Number (JStr p0)) \<or> isNaN (Number (JStr p1)) \<or> js_gt (Number (JStr p0)) (Number (JStr p1))
      | _ \<Rightarrow> True)"


subsection \<open>Values the conversions accept\<close>

text \<open>
  \<^verbatim>\<open>String(v)\<close> and \<^verbatim>\<open>Number(v)\<close> throw a \<^verbatim>\<open>TypeError\<close> on an object that has a key
  \<^verbatim>\<open>toString\<close> of its own (a parsed value is never callable, and the inherited
  \<^verbatim>\<open>valueOf\<close> gives the object back), also when the object sits in an array. The
  conversions of the model are total; \<open>plain\<close> are the values on which the source's
  conversions return.
\<close>

fun plain :: "jsval \<Rightarrow> bool" where
  "plain (JObj kvs) = (''toString'' \<notin> set (map fst kvs))"
| "plain (JArr xs) = list_all plain xs"
| "plain v = True"


definition plain_cell :: "jsval \<Rightarrow> bool" where
  "plain_cell v =
     (case v of
        JStr s \<Rightarrow> (case JSON_parse (trim s) of Some w \<Rightarrow> plain w | None \<Rightarrow> True)
      | _ \<Rightarrow> plain v)"

subsection \<open>Object literals\<close>



subsection \<open>Diagnostic identifiers\<close>

text \<open>The identifier a diagnostic should carry: a function of its entity, row index, field and message.\<close>

definition derived_id :: "ValidationError \<Rightarrow> string" where
  "derived_id d = entity_name (entity d) @ ''-'' @ show_int (rowIndex d) @ ''-'' @ field d @ ''-'' @ message d"

definition identified :: "ValidationError \<Rightarrow> bool" where
  "identified d = (err_id d = derived_id d)"

subsection \<open>Phase capacity\<close>

text \<open>
  What the accounting is about: the phase cell and the duration of a task (a cell that is
  absent or falsy counts as 1, as \<^verbatim>\<open>duration || 1\<close> has it), the parsed slots of a
  worker, the number of slots over all workers that name a phase, the sum of the durations
  of the tasks whose phase cell prints as a given key, and the diagnostic owed for a key.
\<close>

definition task_phase :: "row \<Rightarrow> jsval" where
  "task_phase task = getNormalizedValue task [''phase'', ''taskPhase'']"

definition task_duration :: "row \<Rightarrow> jsnum" where
  "task_duration task =
     (let d = getNormalizedValue task [''duration'', ''taskDuration'']
      in Number (if truthy d then d else JNum (Fin 1)))"

definition worker_slots :: "row \<Rightarrow> string list" where
  "worker_slots worker =
     (case parseArrayString (getNormalizedValue worker [''availableSlots'', ''slots'']) of
        Some (slots, err) \<Rightarrow> slots
      | None \<Rightarrow> [])"

definition names_phase :: "string \<Rightarrow> string \<Rightarrow> bool" where
  "names_phase k slot = (\<not> isNaN (Number (JStr slot)) \<and> show_num (Number (JStr slot)) = k)"

definition slot_count :: "row list \<Rightarrow> string \<Rightarrow> nat" where
  "slot_count ws k = length (filter (names_phase k) (concat (map worker_slots ws)))"

fun fin_val :: "jsnum \<Rightarrow> rat" where
  "fin_val (Fin q) = q"
| "fin_val _ = 0"

fun is_fin :: "jsnum \<Rightarrow> bool" where
  "is_fin (Fin q) = True"
| "is_fin _ = False"

definition in_phase :: "string \<Rightarrow> row \<Rightarrow> bool" where
  "in_phase k task = (task_phase task \<noteq> JUndefined \<and> String (task_phase task) = k)"

definition required_sum :: "row list \<Rightarrow> string \<Rightarrow> jsnum" where
  "required_sum ts k = Fin (sum_list (map (\<lambda>t. fin_val (task_duration t)) (filter (in_phase k) ts)))"

definition phase_keys :: "row list \<Rightarrow> string set" where
  "phase_keys ts = set (map (\<lambda>t. String (task_phase t)) (filter (\<lambda>t. task_phase t \<noteq> JUndefined) ts))"

text \<open>
  Where the accounting of the model is the accounting of the source. The numbers of the
  model are exact: they are the doubles of the source, sums included, on whole numbers
  below \<open>2^53\<close>, and such a number prints in the model as in the source; \<open>exact\<close> are
  the plain values all of whose numbers are of that kind (or not finite). \<open>accountable\<close>
  asks that the slot cells are plain and the phase cells exact, that every slot token and
  every phase key reads as such a whole number or as no number, that no phase key is the
  name of a built-in member, and that the durations of the tasks with a phase are whole
  numbers, not negative, with a total below \<open>2^53\<close>.
\<close>

fun safe_integer :: "jsnum \<Rightarrow> bool" where
  "safe_integer (Fin q) = (q = of_int \<lfloor>q\<rfloor> \<and> \<bar>q\<bar> < 9007199254740992)"
| "safe_integer _ = False"

fun exact :: "jsval \<Rightarrow> bool" where
  "exact (JNum n) = (n = NaN \<or> n = PInf \<or> n = NInf \<or> safe_integer n)"
| "exact (JArr xs) = list_all exact xs"
| "exact (JObj kvs) = (''toString'' \<notin> set (map fst kvs))"
| "exact v = True"

definition phase_number :: "string \<Rightarrow> bool" where
  "phase_number k = (isNaN (Number (JStr k)) \<or> safe_integer (Number (JStr k)))"

definition phased :: "row list \<Rightarrow> row list" where
  "phased ts = filter (\<lambda>t. task_phase t \<noteq> JUndefined) ts"

definition accountable :: "row list \<Rightarrow> row list \<Rightarrow> bool" where
  "accountable ws ts =
     (list_all (\<lambda>w. plain_cell (getNormalizedValue w [''availableSlots'', ''slots''])
                    \<and> list_all phase_number (worker_slots w)) ws
      \<and> list_all (\<lambda>t. exact (task_phase t) \<and> String (task_phase t) \<notin> set object_members
                      \<and> phase_number (String (task_phase t))
                      \<and> safe_integer (task_duration t) \<and> 0 \<le> fin_val (task_duration t)) (phased ts)
      \<and> sum_list (map (\<lambda>t. fin_val (task_duration t)) (phased ts)) < 9007199254740992)"

definition overload_error :: "row list \<Rightarrow> row list \<Rightarrow> string \<Rightarrow> ValidationError list" where
  "overload_error ws ts k =
     (let required = required_sum ts k;
          available = num_of_nat (slot_count ws (show_num (Number (JStr k))))
      in if js_gt required available
         then [createError tasks (- 1) ''Phase Saturation''
                 (''Phase '' @ k @ '' overloaded: requires '' @ show_num required
                    @ '' slots, but only '' @ show_num available @ '' are available.'') error]
         else [])"

text \<open>The table \<^verbatim>\<open>phaseRequirements\<close> after the tasks \<open>ts\<close>.\<close>

definition req_inv :: "(string \<times> total) list \<Rightarrow> row list \<Rightarrow> bool" where
  "req_inv pr ts =
     (distinct (map fst pr) \<and> set (map fst pr) = phase_keys ts
      \<and> (\<forall>k \<in> phase_keys ts. map_of pr k = Some (NumTotal (required_sum ts k))))"

subsection \<open>Co-run graphs\<close>














subsection \<open>Cell edit\<close>

text \<open>
  The diagnostics of one cell of the clients sheet: those whose entity, row index and
  field are the priority cell of row \<open>idx\<close>. \<open>placed\<close> is the entity and row a
  diagnostic is attached to. \<open>client_requests\<close> is the part of \<open>validate_client\<close> after the
  priority check (the \<^verbatim>\<open>requestedTasks\<close> block of \<^verbatim>\<open>validateRow\<close>).
\<close>

definition edited_cell :: "nat \<Rightarrow> ValidationError \<Rightarrow> bool" where
  "edited_cell idx d = (entity d = clients \<and> rowIndex d = int idx \<and> field d = ''priorityLevel'')"

definition placed :: "EntityType \<Rightarrow> int \<Rightarrow> ValidationError \<Rightarrow> bool" where
  "placed ent i d = (entity d = ent \<and> rowIndex d = i)"

definition client_requests :: "row \<Rightarrow> nat \<Rightarrow> sheets \<Rightarrow> ValidationError list option" where
  "client_requests row idx allSheets = do {
     (requestedTasks, taskError) \<leftarrow>
        parseArrayString (getNormalizedValue row [''requestedTasks'', ''requestedTaskIDs'']);
     Some (if truthy_str taskError then [createError clients (int idx) ''requestedTasks'' (the taskError) error]
        else concat (map (\<lambda>taskId.
               if \<not> list_ex (\<lambda>t. String (getNormalizedValue t [''id'', ''taskId'']) = String (JStr taskId))
                              (jsonData (allSheets tasks))
               then [createError clients (int idx) ''requestedTasks''
                       (''Task ID '' @ dq @ taskId @ dq @ '' not found.'') error]
               else []) requestedTasks))
   }"

text \<open>
  The diagnostic of the priority check on row \<open>idx\<close> of the clients sheet, and the
  significand of the exponent form of \<open>show_exp\<close> (a point after the first digit).
\<close>

definition priority_diagnostic :: "nat \<Rightarrow> ValidationError" where
  "priority_diagnostic idx = createError clients (int idx) ''priorityLevel'' ''Priority must be 1-5.'' error"

definition mantissa :: "string \<Rightarrow> string" where
  "mantissa ds = (case ds of [] \<Rightarrow> [] | [d] \<Rightarrow> [d] | d # rest \<Rightarrow> d # CHR ''.'' # rest)"

section \<open>Sample datasets\<close>

definition blank_rows :: "row list" where
  "blank_rows = [[(''name'', JStr ''a'')], [(''id'', JNull)], [(''ID'', JStr ''  '')], [(''name'', JStr ''a'')]]"

definition one_client :: sheets where
  "one_client =
     (\<lambda>e. \<lparr>sheet_name = [], headers = [], jsonData = []\<rparr>)
       (clients := \<lparr>sheet_name = ''Clients'', headers = [''id'', ''priorityLevel''],
                     jsonData = [[(''id'', JStr ''C1''), (''priorityLevel'', JNum (Fin 7))]]\<rparr>)"

definition priority_error :: "ValidationError" where
  "priority_error = createError clients 0 ''priorityLevel'' ''Priority must be 1-5.'' error"

definition start_state :: Dashboard where
  "start_state = \<lparr>sheets = one_client, rules = [], validationErrors = [], validationProgress = 0\<rparr>"

definition checked_state :: Dashboard where
  "checked_state = \<lparr>sheets = one_client, rules = [], validationErrors = [priority_error], validationProgress = 100\<rparr>"

definition no_sheet :: SheetData where
  "no_sheet = \<lparr>sheet_name = [], headers = [], jsonData = []\<rparr>"

definition preferred_only :: row where
  "preferred_only = [(''id'', JStr ''T3''), (''preferredPhases'', JStr ''1-3''), (''duration'', JNum (Fin 9))]"

definition saturated :: sheets where
  "saturated =
     (\<lambda>e. no_sheet)
       (workers := \<lparr>sheet_name = ''Workers'', headers = [''id'', ''availableSlots''],
                     jsonData = [[(''id'', JStr ''W1''), (''availableSlots'', JStr ''1,2'')],
                                 [(''id'', JStr ''W2''), (''slots'', JArr [JNum (Fin 1)])]]\<rparr>,
        tasks := \<lparr>sheet_name = ''Tasks'', headers = [''id'', ''phase'', ''duration''],
                   jsonData = [[(''id'', JStr ''T1''), (''phase'', JNum (Fin 1)), (''duration'', JNum (Fin 2))],
                               [(''id'', JStr ''T2''), (''phase'', JStr ''1''), (''duration'', JNum (Fin 3))],
                               preferred_only]\<rparr>)"

definition zero_duration :: sheets where
  "zero_duration =
     (\<lambda>e. no_sheet)
       (tasks := \<lparr>sheet_name = ''Tasks'', headers = [''phase'', ''duration''],
                   jsonData = [[(''phase'', JNum (Fin 1)), (''duration'', JNum (Fin 0))]]\<rparr>)"

definition saturation_message :: "string \<Rightarrow> string \<Rightarrow> string \<Rightarrow> ValidationError" where
  "saturation_message phase required available =
     createError tasks (- 1) ''Phase Saturation''
       (''Phase '' @ phase @ '' overloaded: requires '' @ required @ '' slots, but only '' @ available
          @ '' are available.'') error"



text \<open>
  Two clients: the first has priority 7 under the header \<^verbatim>\<open>PriorityLevel\<close> and requests
  a task that does not exist, the second has priority 9 under the header \<^verbatim>\<open>priority\<close>.
\<close>

definition two_clients :: sheets where
  "two_clients =
     (\<lambda>e. \<lparr>sheet_name = [], headers = [], jsonData = []\<rparr>)
       (clients := \<lparr>sheet_name = ''Clients'', headers = [''id'', ''priorityLevel'', ''requestedTasks''],
                     jsonData = [[(''id'', JStr ''C1''), (''PriorityLevel'', JNum (Fin 7)), (''requestedTasks'', JStr ''T9'')],
                                 [(''id'', JStr ''C2''), (''priority'', JStr ''9'')]]\<rparr>)"

definition missing_task :: ValidationError where
  "missing_task = createError clients 0 ''requestedTasks'' (''Task ID '' @ dq @ ''T9'' @ dq @ '' not found.'') error"

definition second_priority :: ValidationError where
  "second_priority = createError clients 1 ''priorityLevel'' ''Priority must be 1-5.'' error"

definition edit_state :: Dashboard where
  "edit_state = \<lparr>sheets = two_clients, rules = [], validationErrors = [priority_error, missing_task, second_priority],
                  validationProgress = 100\<rparr>"

text \<open>One task whose phase is the name of a built-in member, with duration 2.\<close>

definition member_phase :: sheets where
  "member_phase =
     (\<lambda>e. no_sheet)
       (tasks := \<lparr>sheet_name = ''Tasks'', headers = [''phase'', ''duration''],
                   jsonData = [[(''phase'', JStr ''constructor''), (''duration'', JNum (Fin 2))]]\<rparr>)"

section \<open>Evaluation lemmas\<close>

lemma range_loop_step: "js_le i e \<Longrightarrow> range_loop i e ps = range_loop (js_add i (Fin 1)) e (ps @ [i])"
  by (subst range_loop.simps) simp

lemma range_loop_stop: "\<not> js_le i e \<Longrightarrow> range_loop i e ps = Some ps"
  by (subst range_loop.simps) simp

declare getNormalizedValue.simps [simp del]

section \<open>Assignment to an object\<close>

lemma keys_insert_index: "set (map fst (insert_index n k v kvs)) = insert k (set (map fst kvs))"
  by (induction n k v kvs rule: insert_index.induct) (simp_all add: insert_commute)

lemma distinct_insert_index:
  "k \<notin> set (map fst kvs) \<Longrightarrow> distinct (map fst kvs) \<Longrightarrow> distinct (map fst (insert_index n k v kvs))"
proof (induction n k v kvs rule: insert_index.induct)
  case (1 n k v)
  then show ?case by simp
next
  case (2 n k v k' v' kvs)
  have "k' \<notin> set (map fst (insert_index n k v kvs))"
    using 2(2,3) unfolding keys_insert_index by auto
  then show ?case using 2 by auto
qed

lemma map_of_insert_index:
  "k \<notin> set (map fst kvs) \<Longrightarrow> map_of (insert_index n k v kvs) x = ((map_of kvs)(k \<mapsto> v)) x"
  by (induction n k v kvs rule: insert_index.induct) auto

lemma map_fst_replace:
  "map fst (map (\<lambda>(k', v'). if k' = k then (k', v) else (k', v')) kvs) = map fst kvs"
  by (induction kvs) auto

lemma map_of_replace:
  "map_of (map (\<lambda>(k', v'). if k' = k then (k', v) else (k', v')) kvs) x =
     (if x = k then (if k \<in> set (map fst kvs) then Some v else None) else map_of kvs x)"
  by (induction kvs) (force split: if_splits)+

lemma map_of_snoc:
  "k \<notin> set (map fst kvs) \<Longrightarrow> map_of (kvs @ [(k, v)]) x = ((map_of kvs)(k \<mapsto> v)) x"
  by (induction kvs) auto

lemma keys_obj_set: "set (map fst (obj_set kvs k v)) = insert k (set (map fst kvs))"
proof -
  have "k \<in> set (map fst kvs) \<Longrightarrow> insert k (set (map fst kvs)) = set (map fst kvs)" by auto
  then show ?thesis
    unfolding obj_set_def by (simp add: keys_insert_index map_fst_replace del: map_map set_map)
qed

lemma distinct_obj_set: "distinct (map fst kvs) \<Longrightarrow> distinct (map fst (obj_set kvs k v))"
  unfolding obj_set_def by (simp add: distinct_insert_index map_fst_replace del: map_map set_map)

lemma map_of_obj_set: "map_of (obj_set kvs k v) = (map_of kvs)(k \<mapsto> v)"
proof (rule ext)
  fix x
  consider (old) "k \<in> set (map fst kvs)"
    | (index) "k \<notin> set (map fst kvs)" "is_array_index k"
    | (new) "k \<notin> set (map fst kvs)" "\<not> is_array_index k"
    by blast
  then show "map_of (obj_set kvs k v) x = ((map_of kvs)(k \<mapsto> v)) x"
  proof cases
    case old
    then have "obj_set kvs k v = map (\<lambda>(k', v'). if k' = k then (k', v) else (k', v')) kvs"
      by (simp add: obj_set_def)
    then show ?thesis using old by (simp add: map_of_replace del: set_map)
  next
    case index
    then have "obj_set kvs k v = insert_index (digits_val 10 k) k v kvs"
      by (simp add: obj_set_def)
    then show ?thesis using index(1) map_of_insert_index by metis
  next
    case new
    then have "obj_set kvs k v = kvs @ [(k, v)]"
      by (simp add: obj_set_def)
    then show ?thesis using new(1) map_of_snoc by metis
  qed
qed

section \<open>Duplicate-id check\<close>



















lemma blank_id_key: "blank_id ent row \<Longrightarrow> id_key ent row = None"
  by (auto simp: blank_id_def id_key_def Let_def split: jsval.splits)

lemma blank_skip:
  "blank_id ent row \<Longrightarrow> duplicate_loop ent ids index (row # rows) = duplicate_loop ent ids (Suc index) rows"
  by (auto simp: blank_id_def Let_def split: jsval.splits)

lemma blank_all: "\<forall>row \<in> set rows. blank_id ent row \<Longrightarrow> duplicate_loop ent ids index rows = []"
  by (induction rows arbitrary: index) (simp_all add: blank_skip del: duplicate_loop.simps(2))

text \<open>
  Claim C10. The duplicate-id check exempts blank identifiers: a row whose id is
  undefined, null or a string that trims to empty is passed over with the table of
  registered ids unchanged, so any number of such rows yields no duplicate diagnostic.
\<close>

theorem blank_ids_exempt:
  "(blank_id ent row \<longrightarrow>
      duplicate_loop ent ids index (row # rows) = duplicate_loop ent ids (Suc index) rows)
   \<and> ((\<forall>r \<in> set rows. blank_id ent r) \<longrightarrow> duplicate_loop ent ids index rows = [])
   \<and> ((\<forall>e. \<forall>r \<in> set (jsonData (sh e)). blank_id e r) \<longrightarrow> duplicate_errors sh = [])"
  by (simp add: blank_skip blank_all duplicate_errors_def entity_keys_def del: duplicate_loop.simps(2))

theorem blank_ids_exempt_witness:
  "blank_id tasks [(''id'', JStr '' '')]
   \<and> duplicate_loop tasks Map.empty 0 ([(''id'', JStr '' '')] # blank_rows) = duplicate_loop tasks Map.empty 1 blank_rows
   \<and> list_all (blank_id clients) blank_rows \<and> list_all (blank_id workers) blank_rows
   \<and> list_all (blank_id tasks) blank_rows
   \<and> duplicate_loop tasks Map.empty 0 blank_rows = []
   \<and> duplicate_errors (\<lambda>e. \<lparr>sheet_name = ''Sheet'', headers = [''name'', ''id''], jsonData = blank_rows\<rparr>) = []"
proof -
  have one: "blank_id tasks [(''id'', JStr '' '')]" by code_simp
  have all: "list_all (blank_id clients) blank_rows" "list_all (blank_id workers) blank_rows"
       "list_all (blank_id tasks) blank_rows"
    by code_simp+
  have each: "blank_id e r" if "r \<in> set blank_rows" for e r
    using all that by (cases e) (auto simp: list_all_iff)
  show ?thesis
    using one all each
      blank_ids_exempt[of tasks "[(''id'', JStr '' '')]" Map.empty 0 blank_rows
                          "\<lambda>e. \<lparr>sheet_name = ''Sheet'', headers = [''name'', ''id''], jsonData = blank_rows\<rparr>"]
    by (simp del: duplicate_loop.simps(2))
qed

section \<open>The phase-list parser on arrays\<close>


section \<open>Phase-list parser on strings\<close>

lemma msg_invalid_range_nonempty: "msg_invalid_range \<noteq> []"
  by (simp add: msg_invalid_range_def)

lemma phase_list_fold_error:
  "snd (foldl phase_list_item st items) =
     (if \<exists>item \<in> set items. trim item \<noteq> [] \<and> isNaN (Number (JStr (trim item)))
      then Some msg_non_numeric else snd st)"
proof (induction items arbitrary: st)
  case Nil
  then show ?case by simp
next
  case (Cons item items)
  show ?case
    by (simp add: Cons.IH) (auto simp: phase_list_item_def msg_non_numeric_def Let_def)
qed

lemma parsePhaseString_str:
  "trim s \<noteq> [] \<Longrightarrow>
   parsePhaseString (JStr s) =
     Option.bind (phase_forms (trim s))
       (\<lambda>pe. if truthy_str (snd pe) then Some ([], snd pe) else Some (fst pe, None))"
  by (simp add: parsePhaseString_def split_def)

lemma parsePhaseString_no_partial: "parsePhaseString v = Some (r, Some e) \<Longrightarrow> r = []"
proof (cases v)
  case (JStr s)
  assume a: "parsePhaseString v = Some (r, Some e)"
  show ?thesis
  proof (cases "trim s = []")
    case True
    then show ?thesis using a JStr by (simp add: parsePhaseString_def)
  next
    case False
    show ?thesis
      using a unfolding JStr parsePhaseString_str[OF False]
      by (auto simp: bind_eq_Some_conv split: if_splits)
  qed
qed (simp_all add: parsePhaseString_def)

lemma phase_forms_invalid_range:
  assumes "\<not> bracketed t" "CHR ''-'' \<in> set t" "invalid_range t"
  shows "phase_forms t = Some ([], Some msg_invalid_range)"
proof -
  have le: "js_le a b \<Longrightarrow> \<not> js_gt a b" for a b
    by (simp add: js_le_def js_gt_def)
  show ?thesis
    using assms le unfolding phase_forms_def invalid_range_def bracketed_def
    by (auto simp: Let_def simp del: Number.simps split: list.splits)
qed

lemma range_invalid:
  assumes "trim s \<noteq> []" "\<not> bracketed (trim s)" "CHR ''-'' \<in> set (trim s)"
    and "invalid_range (trim s)"
  shows "parsePhaseString (JStr s) = Some ([], Some msg_invalid_range)"
  using phase_forms_invalid_range[OF assms(2,3,4)] msg_invalid_range_nonempty
  by (simp add: parsePhaseString_str[OF assms(1)])

lemma comma_list_invalid:
  assumes "trim s \<noteq> []" "\<not> bracketed (trim s)" "CHR ''-'' \<notin> set (trim s)"
    and "\<exists>item \<in> set (split CHR '','' (trim s)). trim item \<noteq> [] \<and> isNaN (Number (JStr (trim item)))"
  shows "parsePhaseString (JStr s) = Some ([], Some msg_non_numeric)"
proof -
  have "snd (foldl phase_list_item ([], None) (split CHR '','' (trim s))) = Some msg_non_numeric"
    using assms(4) by (simp add: phase_list_fold_error)
  moreover have "msg_non_numeric \<noteq> []" by (simp add: msg_non_numeric_def)
  moreover have "phase_forms (trim s) = Some (foldl phase_list_item ([], None) (split CHR '','' (trim s)))"
    using assms(2,3) by (auto simp: phase_forms_def bracketed_def)
  ultimately show ?thesis
    unfolding parsePhaseString_str[OF assms(1)] by simp
qed

lemma phase_example_range: "parsePhaseString (JStr ''1-3'') = Some ([Fin 1, Fin 2, Fin 3], None)"
  by code_simp

lemma phase_example_array: "parsePhaseString (JStr ''[1,2,3]'') = Some ([Fin 1, Fin 2, Fin 3], None)"
  by code_simp

lemma phase_example_list: "parsePhaseString (JStr ''2,a,4'') = Some ([], Some msg_non_numeric)"
  by code_simp

text \<open>
  Claim C2. The phase-list parser returns \<^verbatim>\<open>[1,2,3]\<close> with no error on \<^verbatim>\<open>"1-3"\<close>; on a
  range that is invalid (start greater than end, or malformed: not two pieces, or a piece
  that is not a number) it returns the range error; on \<^verbatim>\<open>"2,a,4"\<close>, and on any comma list
  with a token that is not a number, it returns the non-numeric error with the empty
  list; whenever an error is set the list is empty; on \<^verbatim>\<open>"[1,2,3]"\<close> it returns
  \<^verbatim>\<open>[1,2,3]\<close> with no error.
\<close>

theorem phase_list_parser_forms:
  "parsePhaseString (JStr ''1-3'') = Some ([Fin 1, Fin 2, Fin 3], None)
   \<and> (trim s \<noteq> [] \<and> \<not> bracketed (trim s) \<and> CHR ''-'' \<in> set (trim s) \<and> invalid_range (trim s)
        \<longrightarrow> parsePhaseString (JStr s) = Some ([], Some msg_invalid_range))
   \<and> parsePhaseString (JStr ''2,a,4'') = Some ([], Some msg_non_numeric)
   \<and> (trim t \<noteq> [] \<and> \<not> bracketed (trim t) \<and> CHR ''-'' \<notin> set (trim t)
         \<and> (\<exists>item \<in> set (split CHR '','' (trim t)). trim item \<noteq> [] \<and> isNaN (Number (JStr (trim item))))
        \<longrightarrow> parsePhaseString (JStr t) = Some ([], Some msg_non_numeric))
   \<and> (parsePhaseString v = Some (r, Some e) \<longrightarrow> r = [])
   \<and> parsePhaseString (JStr ''[1,2,3]'') = Some ([Fin 1, Fin 2, Fin 3], None)"
  using phase_example_range phase_example_list phase_example_array
    range_invalid[of s] comma_list_invalid[of t] parsePhaseString_no_partial[of v r e]
  by blast

theorem phase_list_parser_forms_witness:
  "(trim ''5-1'' \<noteq> [] \<and> \<not> bracketed (trim ''5-1'') \<and> CHR ''-'' \<in> set (trim ''5-1'') \<and> invalid_range (trim ''5-1''))
   \<and> parsePhaseString (JStr ''5-1'') = Some ([], Some msg_invalid_range)
   \<and> (trim ''1-2-3'' \<noteq> [] \<and> \<not> bracketed (trim ''1-2-3'') \<and> CHR ''-'' \<in> set (trim ''1-2-3'') \<and> invalid_range (trim ''1-2-3''))
   \<and> parsePhaseString (JStr ''1-2-3'') = Some ([], Some msg_invalid_range)
   \<and> (trim ''7, x'' \<noteq> [] \<and> \<not> bracketed (trim ''7, x'') \<and> CHR ''-'' \<notin> set (trim ''7, x'')
         \<and> (\<exists>item \<in> set (split CHR '','' (trim ''7, x'')). trim item \<noteq> [] \<and> isNaN (Number (JStr (trim item)))))
   \<and> parsePhaseString (JStr ''7, x'') = Some ([], Some msg_non_numeric)
   \<and> parsePhaseString (JStr ''2,a,4'') = Some ([], Some msg_non_numeric)"
proof -
  have h1: "trim ''5-1'' \<noteq> [] \<and> \<not> bracketed (trim ''5-1'') \<and> CHR ''-'' \<in> set (trim ''5-1'') \<and> invalid_range (trim ''5-1'')"
    by code_simp
  have h2: "trim ''1-2-3'' \<noteq> [] \<and> \<not> bracketed (trim ''1-2-3'') \<and> CHR ''-'' \<in> set (trim ''1-2-3'') \<and> invalid_range (trim ''1-2-3'')"
    by code_simp
  have h3: "trim ''7, x'' \<noteq> [] \<and> \<not> bracketed (trim ''7, x'') \<and> CHR ''-'' \<notin> set (trim ''7, x'')
         \<and> (\<exists>item \<in> set (split CHR '','' (trim ''7, x'')). trim item \<noteq> [] \<and> isNaN (Number (JStr (trim item))))"
    by code_simp
  show ?thesis
    using h1 h2 h3
      phase_list_parser_forms[of "''5-1''" "''7, x''" "JStr ''2,a,4''" "[]" msg_non_numeric]
      phase_list_parser_forms[of "''1-2-3''" "''7, x''" "JStr ''2,a,4''" "[]" msg_non_numeric]
    by blast
qed

section \<open>The scalar parsers always return\<close>

lemma parseArrayString_returns: "\<exists>p. parseArrayString v = Some p"
  by (simp add: parseArrayString_def Let_def split: jsval.splits option.splits)


lemma range_loop_unbounded_raw:
  assumes "range_loop i e ps = Some r"
  shows "e = PInf \<longrightarrow> \<not> isNaN i \<longrightarrow> False"
proof (rule range_loop.raw_induct[where P="\<lambda>i e ps r. e = PInf \<longrightarrow> \<not> isNaN i \<longrightarrow> False", OF _ assms])
  fix f i e ps r
  assume IH: "\<And>i e ps r. f i e ps = Some r \<Longrightarrow> e = PInf \<longrightarrow> \<not> isNaN i \<longrightarrow> False"
    and step: "(if js_le i e then f (js_add i (Fin 1)) e (ps @ [i]) else Some ps) = Some (r::jsnum list)"
  show "e = PInf \<longrightarrow> \<not> isNaN i \<longrightarrow> False"
  proof (intro impI)
    assume e: "e = PInf" and i: "\<not> isNaN i"
    have le: "js_le i e" using e i by (cases i) (simp_all add: js_le_def)
    have nn: "\<not> isNaN (js_add i (Fin 1))" using i by (cases i) simp_all
    from step le have "f (js_add i (Fin 1)) e (ps @ [i]) = Some r" by simp
    from IH[OF this] e nn show False by blast
  qed
qed

lemma range_loop_unbounded: "\<not> isNaN i \<Longrightarrow> range_loop i PInf ps = None"
  using range_loop_unbounded_raw by (cases "range_loop i PInf ps") auto



lemma phase_forms_range:
  "\<not> bracketed t \<Longrightarrow> CHR ''-'' \<in> set t \<Longrightarrow> map trim (split CHR ''-'' t) = [p0, p1] \<Longrightarrow>
   phase_forms t =
     (if \<not> isNaN (Number (JStr p0)) \<and> \<not> isNaN (Number (JStr p1)) \<and> js_le (Number (JStr p0)) (Number (JStr p1))
      then map_option (\<lambda>ps. (ps, None)) (range_loop (Number (JStr p0)) (Number (JStr p1)) [])
      else Some ([], Some msg_invalid_range))"
  by (auto simp: phase_forms_def bracketed_def Let_def simp del: Number.simps)

lemma phase_forms_pieces:
  "\<not> bracketed t \<Longrightarrow> CHR ''-'' \<in> set t \<Longrightarrow> \<not> (\<exists>p0 p1. map trim (split CHR ''-'' t) = [p0, p1]) \<Longrightarrow>
   phase_forms t = Some ([], Some msg_invalid_range)"
  by (auto simp: phase_forms_def bracketed_def Let_def simp del: Number.simps split: list.splits)


lemma range_to_infinity_never_returns: "parsePhaseString (JStr ''1-Infinity'') = None"
proof -
  have t: "trim ''1-Infinity'' = ''1-Infinity''" by code_simp
  have nb: "\<not> bracketed ''1-Infinity''" by code_simp
  have m: "CHR ''-'' \<in> set ''1-Infinity''" by simp
  have p: "map trim (split CHR ''-'' ''1-Infinity'') = [''1'', ''Infinity'']" by code_simp
  have s0: "Number (JStr ''1'') = Fin 1" by code_simp
  have e1: "Number (JStr ''Infinity'') = PInf" by code_simp
  have "phase_forms ''1-Infinity'' = None"
    unfolding phase_forms_range[OF nb m p] s0 e1
    using range_loop_unbounded[of "Fin 1" "[]"] by (simp add: js_le_def)
  then show ?thesis using parsePhaseString_str[of "''1-Infinity''"] t by simp
qed







section \<open>Priority and duration bounds\<close>

lemma priority_in_range:
  "Number v = Fin q \<Longrightarrow> v \<noteq> JUndefined \<Longrightarrow> priority_out_of_range v \<longleftrightarrow> q < 1 \<or> 5 < q"
  by (simp add: priority_out_of_range_def js_gt_def)

lemma priority_not_a_number: "isNaN (Number v) \<Longrightarrow> \<not> priority_out_of_range v"
  by (cases "Number v") (simp_all add: priority_out_of_range_def js_gt_def)

text \<open>
  Claim C1, evaluated where the code departs from it. A client row whose
  \<^verbatim>\<open>priorityLevel\<close> is the text \<^verbatim>\<open>high\<close>, and a task row whose \<^verbatim>\<open>priority\<close> and
  \<^verbatim>\<open>duration\<close> are text, get no diagnostic at all: \<^verbatim>\<open>Number\<close> gives not-a-number, and
  both comparisons of the bound check are false on it.
\<close>

theorem non_numeric_priority_passes:
  "validateRow clients [(''priorityLevel'', JStr ''high'')] 0 allSheets = Some []
   \<and> validateRow tasks [(''priority'', JStr ''high''), (''duration'', JStr ''long'')] 0 allSheets = Some []"
  by code_simp

section \<open>Idempotence and identifiers\<close>

lemma createError_identified [simp]: "identified (createError ent idx fld msg lvl)"
  by (simp add: identified_def derived_id_def createError_def)

lemma collect_all:
  assumes "collect f xs = Some zs"
    and "\<And>x ys. x \<in> set xs \<Longrightarrow> f x = Some ys \<Longrightarrow> list_all P ys"
  shows "list_all P zs"
  using assms
proof (induction xs arbitrary: zs)
  case Nil
  then show ?case by simp
next
  case (Cons x xs)
  from Cons.prems(1) obtain ys ws where a: "f x = Some ys" "collect f xs = Some ws" "zs = ys @ ws"
    by (auto simp: bind_eq_Some_conv)
  have "list_all P ys" using Cons.prems(2)[of x ys] a by simp
  moreover have "list_all P ws"
  proof (rule Cons.IH[OF a(2)])
    fix x' ys' assume "x' \<in> set xs" "f x' = Some ys'"
    then show "list_all P ys'" using Cons.prems(2)[of x' ys'] by simp
  qed
  ultimately show ?case using a by simp
qed

lemma list_all_if: "list_all P (if c then xs else ys) = (if c then list_all P xs else list_all P ys)"
  by simp

lemma schema_identified: "list_all identified (schema_errors sh)"
  by (simp add: schema_errors_def Let_def entity_keys_def)

lemma duplicate_loop_identified: "list_all identified (duplicate_loop ent ids i rows)"
  by (induction rows arbitrary: ids i) (auto simp: Let_def split: option.splits)

lemma duplicate_identified: "list_all identified (duplicate_errors sh)"
  by (simp add: duplicate_errors_def entity_keys_def duplicate_loop_identified)

lemma list_all_concat_map: "list_all P (concat (map f xs)) = list_all (\<lambda>x. list_all P (f x)) xs"
  by (induction xs) simp_all

lemma list_all_True: "list_all (\<lambda>x. True) xs"
  by (simp add: list_all_iff)

lemmas identified_simps = list_all_if list_all_concat_map list_all_True bind_eq_Some_conv Let_def

lemma json_column_identified: "json_column_errors ent idx row = Some es \<Longrightarrow> list_all identified es"
  unfolding json_column_errors_def
proof (erule collect_all)
  fix key ys
  assume "(if includes_str (normalizeFieldName key) ''json'' then do {
          (result, err) \<leftarrow> parseJsonString (obj_get row key);
          Some (if truthy_str err then [createError ent (int idx) key (the err) error] else [])
        } else Some []) = Some ys"
  then show "list_all identified ys"
    by (cases "includes_str (normalizeFieldName key) ''json''") (auto simp: identified_simps)
qed

lemma validate_client_identified: "validate_client row idx sh = Some es \<Longrightarrow> list_all identified es"
  unfolding validate_client_def
  by (clarsimp simp: identified_simps)

lemma validate_worker_identified: "validate_worker row idx sh = Some es \<Longrightarrow> list_all identified es"
  unfolding validate_worker_def
  by (clarsimp simp: identified_simps)

lemma max_concurrent_identified: "max_concurrent_errors row idx sh = Some es \<Longrightarrow> list_all identified es"
  unfolding max_concurrent_errors_def
  by (auto simp: identified_simps split: if_splits)

lemma validate_task_identified: "validate_task row idx sh = Some es \<Longrightarrow> list_all identified es"
  unfolding validate_task_def
  by (clarsimp simp: identified_simps max_concurrent_identified)

lemma validateRow_identified: "validateRow ent row idx sh = Some es \<Longrightarrow> list_all identified es"
  unfolding validateRow_def
  by (cases ent)
     (auto simp: bind_eq_Some_conv dest: json_column_identified validate_client_identified
        validate_worker_identified validate_task_identified)

lemma row_errors_identified: "row_errors sh = Some es \<Longrightarrow> list_all identified es"
  unfolding row_errors_def
proof (erule collect_all)
  fix ent ys
  assume "collect (\<lambda>(rowIndex, row). validateRow ent row rowIndex sh) (enumerate 0 (jsonData (sh ent))) = Some ys"
  then show "list_all identified ys"
    by (rule collect_all) (auto dest: validateRow_identified)
qed

lemma saturation_identified: "list_all identified (saturation_error slots entry)"
  by (simp add: saturation_error_def Let_def split: total.splits)

lemma phase_errors_identified: "phase_errors sh = Some es \<Longrightarrow> list_all identified es"
  unfolding phase_errors_def
  by (clarsimp simp: identified_simps saturation_identified)

lemma skill_errors_identified: "skill_errors sh = Some es \<Longrightarrow> list_all identified es"
  unfolding skill_errors_def
  by (clarsimp simp: identified_simps)

lemma corun_rule_identified: "corun_rule_errors sh ts = Some es \<Longrightarrow> list_all identified es"
  unfolding corun_rule_errors_def
  by (clarsimp simp: identified_simps)

lemma corun_errors_identified: "corun_errors rs sh = Some es \<Longrightarrow> list_all identified es"
  unfolding corun_errors_def
  by (erule collect_all) (rule corun_rule_identified)

lemma slot_rule_identified: "list_all identified (slot_rule_errors sh r)"
  by (simp add: slot_rule_errors_def split: option.splits)

lemma slot_errors_identified: "list_all identified (slot_errors rs sh)"
  by (simp add: slot_errors_def list_all_concat_map slot_rule_identified list_all_True)

lemma all_errors_identified: "all_errors rs sh = Some es \<Longrightarrow> list_all identified es"
  unfolding all_errors_def
  by (clarsimp simp: bind_eq_Some_conv schema_identified duplicate_identified slot_errors_identified
        row_errors_identified phase_errors_identified skill_errors_identified corun_errors_identified)

lemma validateAllData_again: "validateAllData sh st = Some st' \<Longrightarrow> validateAllData sh st' = Some st'"
  by (auto simp: validateAllData_def bind_eq_Some_conv)

lemma validateAllData_errors:
  "rules st1 = rules st2 \<Longrightarrow>
   map_option validationErrors (validateAllData sh st1) = map_option validationErrors (validateAllData sh st2)"
  by (cases "all_errors (rules st2) sh") (simp_all add: validateAllData_def)

lemma one_client_errors: "all_errors [] one_client = Some [priority_error]"
  by code_simp

text \<open>
  Claim C6. Validation is idempotent and deterministic: a second pass over the same
  sheets leaves the state the first pass produced; the diagnostics of a pass depend only
  on the sheets and the rule list; and the id of every diagnostic of a pass is the
  function \<open>derived_id\<close> of its entity, row index, field and message, so the same finding
  carries the same id in every pass.
\<close>

theorem validation_idempotent:
  "(validateAllData currentSheets st = Some st' \<longrightarrow> validateAllData currentSheets st' = Some st')
   \<and> (rules st1 = rules st2 \<longrightarrow>
        map_option validationErrors (validateAllData currentSheets st1)
          = map_option validationErrors (validateAllData currentSheets st2))
   \<and> (all_errors rs currentSheets = Some errs \<longrightarrow> list_all (\<lambda>d. err_id d = derived_id d) errs)"
  using validateAllData_again[of currentSheets st st'] validateAllData_errors[of st1 st2 currentSheets]
    all_errors_identified[of rs currentSheets errs]
  by (simp add: identified_def[abs_def])

theorem validation_idempotent_witness:
  "validateAllData one_client start_state = Some checked_state
   \<and> validateAllData one_client checked_state = Some checked_state
   \<and> rules start_state = rules checked_state
   \<and> all_errors [] one_client = Some [priority_error]
   \<and> err_id priority_error = ''clients-0-priorityLevel-Priority must be 1-5.''
   \<and> err_id priority_error = derived_id priority_error"
proof -
  have a: "validateAllData one_client start_state = Some checked_state"
    using one_client_errors by (simp add: validateAllData_def start_state_def checked_state_def)
  have b: "rules start_state = rules checked_state"
    by (simp add: start_state_def checked_state_def)
  have c: "err_id priority_error = ''clients-0-priorityLevel-Priority must be 1-5.''"
    by code_simp
  show ?thesis
    using a b c one_client_errors
      validation_idempotent[of one_client start_state checked_state start_state checked_state "[]" "[priority_error]"]
    by simp
qed

section \<open>Phase-capacity accounting\<close>

lemma or_zero_count: "or_zero (Some (Fin (of_nat c + 1))) = Fin (of_nat c + 1)"
proof -
  have "(of_nat c + 1 :: rat) \<noteq> 0" by (metis of_nat_Suc of_nat_neq_0 add.commute)
  then show ?thesis by simp
qed

lemma count_slot_lookup:
  assumes "or_zero (m k) = num_of_nat c"
  shows "or_zero (count_slot m slot k) = num_of_nat (c + (if names_phase k slot then 1 else 0))"
proof (cases "names_phase k slot")
  case True
  then have "count_slot m slot k = Some (js_add (or_zero (m k)) (Fin 1))"
    by (simp add: count_slot_def names_phase_def Let_def del: Number.simps)
  then show ?thesis using True assms or_zero_count[of c] by (simp add: num_of_nat_def)
next
  case False
  then have "count_slot m slot k = m k"
    by (auto simp: count_slot_def names_phase_def Let_def simp del: Number.simps)
  then show ?thesis using False assms by simp
qed

lemma foldl_count_slot:
  "(\<And>k. or_zero (m k) = num_of_nat (c k)) \<Longrightarrow>
   or_zero (foldl count_slot m slots k) = num_of_nat (c k + length (filter (names_phase k) slots))"
proof (induction slots arbitrary: m c)
  case Nil
  then show ?case by simp
next
  case (Cons slot slots)
  have "or_zero (foldl count_slot (count_slot m slot) slots k) =
        num_of_nat ((\<lambda>k. c k + (if names_phase k slot then 1 else 0)) k + length (filter (names_phase k) slots))"
    by (rule Cons.IH) (rule count_slot_lookup, rule Cons.prems)
  then show ?case by (simp add: add.assoc)
qed

lemma build_phaseSlots_lookup:
  "(\<And>k. or_zero (m k) = num_of_nat (c k)) \<Longrightarrow>
   \<exists>m'. build_phaseSlots m ws = Some m' \<and> (\<forall>k. or_zero (m' k) = num_of_nat (c k + slot_count ws k))"
proof (induction ws arbitrary: m c)
  case Nil
  then show ?case by (simp add: slot_count_def)
next
  case (Cons w ws)
  obtain slots err where p: "parseArrayString (getNormalizedValue w [''availableSlots'', ''slots'']) = Some (slots, err)"
    using parseArrayString_returns by (metis surj_pair)
  then have ws: "worker_slots w = slots" by (simp add: worker_slots_def)
  have step: "\<And>k. or_zero (foldl count_slot m slots k) = num_of_nat (c k + length (filter (names_phase k) slots))"
    by (rule foldl_count_slot) (rule Cons.prems)
  obtain m' where m': "build_phaseSlots (foldl count_slot m slots) ws = Some m'"
    "\<forall>k. or_zero (m' k) = num_of_nat (c k + length (filter (names_phase k) slots) + slot_count ws k)"
    using Cons.IH[of "foldl count_slot m slots" "\<lambda>k. c k + length (filter (names_phase k) slots)", OF step]
    by blast
  show ?case
    using p m' ws by (simp add: slot_count_def add.assoc)
qed

lemma add_requirement_alt:
  "add_requirement pr t =
     (if task_phase t \<noteq> JUndefined
      then if String (task_phase t) = ''__proto__'' then pr
           else obj_set pr (String (task_phase t))
                  (add_total (read_total pr (String (task_phase t))) (task_duration t))
      else pr)"
  by (simp add: add_requirement_def task_phase_def task_duration_def Let_def del: Number.simps)

lemma proto_member: "''__proto__'' \<in> set object_members"
  by (simp add: object_members_def)

lemma read_total_own: "k \<notin> set object_members \<Longrightarrow> read_total pr k = map_of pr k"
  by (simp add: read_total_def split: option.splits)

lemma phase_keys_snoc:
  "phase_keys (ts @ [t]) =
     (if task_phase t \<noteq> JUndefined then insert (String (task_phase t)) (phase_keys ts) else phase_keys ts)"
  by (simp add: phase_keys_def)

lemma required_sum_snoc:
  "required_sum (ts @ [t]) k =
     (if in_phase k t then Fin (fin_val (required_sum ts k) + fin_val (task_duration t)) else required_sum ts k)"
  by (simp add: required_sum_def)

lemma required_sum_absent: "k \<notin> phase_keys ts \<Longrightarrow> required_sum ts k = Fin 0"
proof -
  assume "k \<notin> phase_keys ts"
  then have "filter (in_phase k) ts = []"
    by (auto simp: phase_keys_def in_phase_def filter_empty_conv)
  then show ?thesis by (simp add: required_sum_def)
qed

lemma js_add_zero: "js_add (Fin 0) (Fin q) = Fin q"
  by simp

lemma req_inv_step:
  assumes inv: "req_inv pr ts"
    and num: "task_phase t \<noteq> JUndefined \<longrightarrow> String (task_phase t) \<notin> set object_members \<and> is_fin (task_duration t)"
  shows "req_inv (add_requirement pr t) (ts @ [t])"
proof (cases "task_phase t = JUndefined")
  case True
  then show ?thesis
    using inv by (simp add: add_requirement_alt req_inv_def phase_keys_snoc required_sum_snoc in_phase_def)
next
  case False
  define key where "key = String (task_phase t)"
  have own: "key \<notin> set object_members" using num False by (simp add: key_def)
  then have np: "key \<noteq> ''__proto__''" using proto_member by auto
  obtain q where q: "task_duration t = Fin q"
    using num False by (cases "task_duration t") auto
  obtain s where s: "required_sum ts key = Fin s" by (simp add: required_sum_def)
  have old: "add_total (read_total pr key) (Fin q) = NumTotal (Fin (s + q))"
  proof (cases "key \<in> phase_keys ts")
    case True
    then have "map_of pr key = Some (NumTotal (Fin s))" using inv s by (simp add: req_inv_def)
    then show ?thesis using own by (simp add: read_total_own)
  next
    case False
    then have "key \<notin> set (map fst pr)" using inv by (simp add: req_inv_def del: set_map)
    then have "map_of pr key = None" by (simp add: map_of_eq_None_iff)
    moreover have "s = 0" using s required_sum_absent[OF False] by simp
    ultimately show ?thesis using own by (simp add: read_total_own)
  qed
  have new: "add_requirement pr t = obj_set pr key (NumTotal (Fin (s + q)))"
    using False old q np by (simp add: add_requirement_alt key_def)
  have keys: "phase_keys (ts @ [t]) = insert key (phase_keys ts)"
    using False by (simp add: phase_keys_snoc key_def)
  have sum_key: "required_sum (ts @ [t]) key = Fin (s + q)"
    using False s q by (simp add: required_sum_snoc in_phase_def key_def)
  have sum_other: "k \<noteq> key \<Longrightarrow> required_sum (ts @ [t]) k = required_sum ts k" for k
    by (auto simp: required_sum_snoc in_phase_def key_def)
  show ?thesis
    unfolding req_inv_def new keys
    using inv sum_key sum_other
    by (auto simp: req_inv_def distinct_obj_set keys_obj_set map_of_obj_set simp del: set_map)
qed

lemma foldl_req_inv:
  "list_all (\<lambda>t. String (task_phase t) \<notin> set object_members \<and> is_fin (task_duration t)) (phased ts') \<Longrightarrow>
   req_inv pr ts \<Longrightarrow> req_inv (foldl add_requirement pr ts') (ts @ ts')"
proof (induction ts' arbitrary: pr ts)
  case Nil
  then show ?case by simp
next
  case (Cons t ts')
  have num: "task_phase t \<noteq> JUndefined \<longrightarrow> String (task_phase t) \<notin> set object_members \<and> is_fin (task_duration t)"
    and rest: "list_all (\<lambda>t. String (task_phase t) \<notin> set object_members \<and> is_fin (task_duration t)) (phased ts')"
    using Cons.prems(1) by (auto simp: phased_def split: if_splits)
  have "req_inv (foldl add_requirement (add_requirement pr t) ts') ((ts @ [t]) @ ts')"
    by (rule Cons.IH[OF rest]) (rule req_inv_step[OF Cons.prems(2) num])
  then show ?case by simp
qed

lemma saturation_is_overload:
  assumes "\<And>k. or_zero (m k) = num_of_nat (slot_count ws k)"
  shows "saturation_error m (k, NumTotal (required_sum ts k)) = overload_error ws ts k"
  by (simp add: saturation_error_def overload_error_def assms Let_def del: Number.simps)

lemma safe_integer_fin: "safe_integer n \<Longrightarrow> is_fin n"
  by (cases n) simp_all

lemma accountable_own:
  "accountable ws ts \<Longrightarrow>
   list_all (\<lambda>t. String (task_phase t) \<notin> set object_members \<and> is_fin (task_duration t)) (phased ts)"
  by (auto simp: accountable_def list_all_iff safe_integer_fin)

lemma phase_errors_overloads:
  assumes "accountable (jsonData (sh workers)) (jsonData (sh tasks))"
  shows "\<exists>keys. distinct keys \<and> set keys = phase_keys (jsonData (sh tasks))
           \<and> phase_errors sh = Some (concat (map (overload_error (jsonData (sh workers)) (jsonData (sh tasks))) keys))"
proof -
  define ws where "ws = jsonData (sh workers)"
  define ts where "ts = jsonData (sh tasks)"
  define pr where "pr = foldl add_requirement [] ts"
  have "\<And>k. or_zero (Map.empty k) = num_of_nat 0" by (simp add: num_of_nat_def)
  then obtain m where m: "build_phaseSlots Map.empty ws = Some m"
    and look: "\<And>k. or_zero (m k) = num_of_nat (slot_count ws k)"
    using build_phaseSlots_lookup[of Map.empty "\<lambda>k. 0" ws] by auto
  have "req_inv [] []" by (simp add: req_inv_def phase_keys_def)
  then have inv: "req_inv pr ts"
    using foldl_req_inv[of ts "[]" "[]"] accountable_own[OF assms] by (simp add: pr_def ts_def)
  have each: "saturation_error m e = overload_error ws ts (fst e)" if "e \<in> set pr" for e
  proof -
    obtain k v where e: "e = (k, v)" by (cases e)
    have "map_of pr k = Some v" using that e inv by (simp add: req_inv_def)
    moreover have "k \<in> phase_keys ts" using that e inv by (force simp: req_inv_def)
    ultimately have "v = NumTotal (required_sum ts k)" using inv by (simp add: req_inv_def)
    then show ?thesis using e saturation_is_overload[of m ws k ts] look by simp
  qed
  have "map (saturation_error m) pr = map (\<lambda>e. overload_error ws ts (fst e)) pr"
    by (rule map_cong) (simp_all add: each)
  moreover have "map (overload_error ws ts) (map fst pr) = map (\<lambda>e. overload_error ws ts (fst e)) pr"
    by (simp add: comp_def)
  ultimately have "concat (map (saturation_error m) pr) = concat (map (overload_error ws ts) (map fst pr))"
    by (simp only:)
  then have "phase_errors sh = Some (concat (map (overload_error ws ts) (map fst pr)))"
    using m by (simp add: phase_errors_def ws_def ts_def pr_def)
  then show ?thesis
    using inv unfolding ws_def ts_def req_inv_def by blast
qed

lemma preferred_only_ignored: "task_phase task = JUndefined \<Longrightarrow> add_requirement pr task = pr"
  by (simp add: add_requirement_alt)

lemma member_phase_unreported:
  "phase_errors member_phase = Some []
   \<and> foldl add_requirement [] (jsonData (member_phase tasks)) = [(''constructor'', TextTotal)]"
  by code_simp

text \<open>
  Claim C5, as amended. Phase-capacity accounting counts, per phase, the slots of the
  parsed \<^verbatim>\<open>availableSlots\<close> of all workers, and sums the durations of the tasks that
  carry a \<^verbatim>\<open>phase\<close> field, a task whose duration is absent or falsy (0, empty text)
  counting as 1; a task without that field (one that only gives \<^verbatim>\<open>preferredPhases\<close>)
  changes nothing. On an accountable dataset (plain cells, whole numbers below \<open>2^53\<close> for
  the slots, the phases and the durations, no phase named like a built-in member) the
  diagnostics are, for the distinct phase keys, exactly one "Phase N overloaded: requires X
  slots, but only Y are available." with these totals where X exceeds Y, and none where it
  does not.
\<close>

theorem phase_capacity_accounting:
  "(accountable (jsonData (sh workers)) (jsonData (sh tasks)) \<longrightarrow>
      (\<exists>keys. distinct keys \<and> set keys = phase_keys (jsonData (sh tasks))
         \<and> phase_errors sh
             = Some (concat (map (overload_error (jsonData (sh workers)) (jsonData (sh tasks))) keys))))
   \<and> (task_phase task = JUndefined \<longrightarrow> add_requirement pr task = pr)"
  using phase_errors_overloads[of sh] preferred_only_ignored[of task pr] by blast

theorem phase_capacity_accounting_witness:
  "accountable (jsonData (saturated workers)) (jsonData (saturated tasks))
   \<and> phase_errors saturated = Some [saturation_message ''1'' ''5'' ''2'']
   \<and> overload_error (jsonData (saturated workers)) (jsonData (saturated tasks)) ''1''
        = [saturation_message ''1'' ''5'' ''2'']
   \<and> task_phase preferred_only = JUndefined
   \<and> add_requirement [(''1'', NumTotal (Fin 5))] preferred_only = [(''1'', NumTotal (Fin 5))]"
proof -
  have a: "accountable (jsonData (saturated workers)) (jsonData (saturated tasks))" by code_simp
  have b: "phase_errors saturated = Some [saturation_message ''1'' ''5'' ''2'']" by code_simp
  have c: "overload_error (jsonData (saturated workers)) (jsonData (saturated tasks)) ''1''
        = [saturation_message ''1'' ''5'' ''2'']" by code_simp
  have d: "task_phase preferred_only = JUndefined" by code_simp
  show ?thesis
    using a b c d phase_capacity_accounting[of saturated preferred_only "[(''1'', NumTotal (Fin 5))]"]
    by simp
qed

theorem zero_duration_counterexample:
  "getNormalizedValue [(''phase'', JNum (Fin 1)), (''duration'', JNum (Fin 0))] [''duration'', ''taskDuration'']
     = JNum (Fin 0)
   \<and> phase_errors zero_duration = Some [saturation_message ''1'' ''1'' ''0'']"
  by code_simp

section \<open>Co-run cycle detection\<close>









lemma card_grown:
  assumes "finite N" "V \<subseteq> V'"
  shows "card (N - V') \<le> card (N - V)"
  using assms by (simp add: card_mono Diff_mono)


















section \<open>Row indices as text\<close>

text \<open>
  A row index is printed by \<open>show_int\<close>: the text has no hyphen and determines the index.
\<close>

lemma digit_char_inj: "a < 10 \<Longrightarrow> b < 10 \<Longrightarrow> digit_char a = digit_char b \<Longrightarrow> a = b"
proof -
  have d: "distinct ''0123456789''" by simp
  show "a < 10 \<Longrightarrow> b < 10 \<Longrightarrow> digit_char a = digit_char b \<Longrightarrow> a = b"
    unfolding digit_char_def using nth_eq_iff_index_eq[OF d, of a b] by simp
qed

lemma digit_char_digit: "d < 10 \<Longrightarrow> digit_char d \<in> set ''0123456789''"
  unfolding digit_char_def by (rule nth_mem) simp

lemma show_nat_digits: "set (show_nat n) \<subseteq> set ''0123456789''"
proof (induction n rule: show_nat.induct)
  case (1 n)
  show ?case
  proof (cases "n < 10")
    case True
    then show ?thesis using digit_char_digit[of n] by (subst show_nat.simps) simp
  next
    case False
    have "n mod 10 < 10" by simp
    then have "digit_char (n mod 10) \<in> set ''0123456789''" by (rule digit_char_digit)
    then show ?thesis using False 1 by (subst show_nat.simps) simp
  qed
qed

lemma show_nat_nonempty: "show_nat n \<noteq> []"
  by (subst show_nat.simps) simp

lemma show_nat_inj: "show_nat a = show_nat b \<Longrightarrow> a = b"
proof (induction a arbitrary: b rule: show_nat.induct)
  case (1 a)
  show ?case
  proof (cases "a < 10")
    case True
    show ?thesis
    proof (cases "b < 10")
      case b: True
      from 1(2) have "[digit_char a] = [digit_char b]"
        using True b by (simp add: show_nat.simps[of a] show_nat.simps[of b])
      then show ?thesis using True b digit_char_inj by simp
    next
      case b: False
      from 1(2) have "[digit_char a] = show_nat (b div 10) @ [digit_char (b mod 10)]"
        using True b by (simp add: show_nat.simps[of a] show_nat.simps[of b])
      then show ?thesis using show_nat_nonempty[of "b div 10"] by simp
    qed
  next
    case False
    show ?thesis
    proof (cases "b < 10")
      case b: True
      from 1(2) have "show_nat (a div 10) @ [digit_char (a mod 10)] = [digit_char b]"
        using False b by (simp add: show_nat.simps[of a] show_nat.simps[of b])
      then show ?thesis using show_nat_nonempty[of "a div 10"] by simp
    next
      case b: False
      from 1(2) have "show_nat (a div 10) @ [digit_char (a mod 10)] = show_nat (b div 10) @ [digit_char (b mod 10)]"
        using False b by (simp add: show_nat.simps[of a] show_nat.simps[of b])
      then have q: "show_nat (a div 10) = show_nat (b div 10)" and r: "digit_char (a mod 10) = digit_char (b mod 10)"
        by simp_all
      have "a div 10 = b div 10" using 1(1)[OF False q] .
      moreover have "a mod 10 = b mod 10" using _ _ r by (rule digit_char_inj) simp_all
      ultimately show ?thesis by (metis div_mult_mod_eq)
    qed
  qed
qed

lemma show_nat_times10: "0 < s \<Longrightarrow> show_nat (s * 10) = show_nat s @ ''0''"
  by (subst show_nat.simps) (simp add: digit_char_def)

lemma show_nat_shift: "0 < s \<Longrightarrow> show_nat (s * 10 ^ t) = show_nat s @ replicate t CHR ''0''"
proof (induction t)
  case 0
  then show ?case by simp
next
  case (Suc t)
  have "show_nat (s * 10 ^ Suc t) = show_nat ((s * 10 ^ t) * 10)" by (simp add: ac_simps)
  also have "\<dots> = show_nat (s * 10 ^ t) @ ''0''" using Suc.prems by (intro show_nat_times10) simp
  also have "\<dots> = show_nat s @ replicate (Suc t) CHR ''0''"
    using Suc by (simp add: replicate_append_same)
  finally show ?case .
qed

lemma strip_zeros_value: "strip_zeros fuel m = (s, t) \<Longrightarrow> m = s * 10 ^ t"
proof (induction fuel arbitrary: m s t)
  case 0
  then show ?case by simp
next
  case (Suc fuel)
  show ?case
  proof (cases "m \<noteq> 0 \<and> m mod 10 = 0")
    case True
    obtain s' t' where st: "strip_zeros fuel (m div 10) = (s', t')" by (cases "strip_zeros fuel (m div 10)")
    then have "s = s'" "t = Suc t'" using Suc.prems True by simp_all
    moreover have "m div 10 = s' * 10 ^ t'" using st by (rule Suc.IH)
    ultimately show ?thesis using True by auto
  next
    case False
    then show ?thesis using Suc.prems by auto
  qed
qed

lemma frac_digits_nat: "frac_digits 1074 0 (of_nat n) = 0"
proof -
  have "frac_digits (Suc 1073) 0 (of_nat n) = 0"
    by (simp only: frac_digits.simps) simp
  then show ?thesis by simp
qed

lemma show_int_nat:
  assumes "0 < n" and "strip_zeros (length (show_nat n)) n = (s, t)"
  shows "show_int (int n) =
           (if length (show_nat n) \<le> 21 then show_nat n
            else mantissa (show_nat s) @ ''e+'' @ show_nat (length (show_nat n) - 1))"
proof -
  have n: "n = s * 10 ^ t" using assms(2) by (rule strip_zeros_value)
  then have s: "0 < s" using assms(1) by (cases s) auto
  have sh: "show_nat n = show_nat s @ replicate t CHR ''0''"
    unfolding n using s by (rule show_nat_shift)
  have len: "length (show_nat n) = length (show_nat s) + t" by (simp add: sh)
  have fl: "nat \<lfloor>(of_nat n :: rat)\<rfloor> = n" by simp
  have ex: "nat (int k + int t - 1) = k + t - Suc 0" for k by arith
  have "show_int (int n) = show_pos (of_nat n)"
    using assms(1) by (simp add: show_int_def)
  also have "\<dots> = (if length (show_nat n) \<le> 21 then show_nat n
            else mantissa (show_nat s) @ ''e+'' @ show_nat (length (show_nat n) - 1))"
    unfolding show_pos_def frac_digits_nat
    using assms(2) show_nat_nonempty[of s]
    by (simp add: fl Let_def len sh show_exp_def mantissa_def ex)
  finally show ?thesis .
qed

lemma split_at_sep:
  "c \<notin> set a \<Longrightarrow> c \<notin> set b \<Longrightarrow> a @ c # x = b @ c # y \<Longrightarrow> a = b \<and> x = y"
proof (induction a arbitrary: b)
  case Nil
  then show ?case by (cases b) auto
next
  case (Cons h a)
  then show ?case by (cases b) auto
qed

lemma mantissa_inj: "mantissa a = mantissa b \<Longrightarrow> a = b"
  unfolding mantissa_def
  by (cases a; cases b; cases "tl a"; cases "tl b") auto

lemma mantissa_chars: "set (mantissa ds) \<subseteq> insert CHR ''.'' (set ds)"
  unfolding mantissa_def by (cases ds; cases "tl ds") auto

lemma digits_no_e: "CHR ''e'' \<notin> set (show_nat n)" "CHR ''.'' \<notin> set (show_nat n)" "CHR ''-'' \<notin> set (show_nat n)"
  "CHR ''+'' \<notin> set (show_nat n)"
  using show_nat_digits[of n] by auto

lemma show_int_zero: "show_int 0 = ''0''"
  by (simp add: show_int_def)

lemma show_int_no_dash: "CHR ''-'' \<notin> set (show_int (int n))"
proof (cases "n = 0")
  case True
  then show ?thesis by (simp add: show_int_zero)
next
  case False
  obtain s t where st: "strip_zeros (length (show_nat n)) n = (s, t)" by (cases "strip_zeros (length (show_nat n)) n")
  have "CHR ''-'' \<notin> set (mantissa (show_nat s))"
    using mantissa_chars[of "show_nat s"] digits_no_e(3)[of s] by auto
  then show ?thesis
    using False show_int_nat[OF _ st] digits_no_e(3) by auto
qed

lemma show_int_nonempty: "show_int (int n) \<noteq> []"
proof (cases "n = 0")
  case True
  then show ?thesis by (simp add: show_int_zero)
next
  case False
  obtain s t where st: "strip_zeros (length (show_nat n)) n = (s, t)" by (cases "strip_zeros (length (show_nat n)) n")
  show ?thesis
    using False show_int_nat[OF _ st] show_nat_nonempty by auto
qed

lemma show_int_inj:
  assumes "show_int (int a) = show_int (int b)"
  shows "a = b"
proof -
  have pos: "show_int (int n) \<noteq> ''0''" if "0 < n" for n
  proof -
    obtain s t where st: "strip_zeros (length (show_nat n)) n = (s, t)" by (cases "strip_zeros (length (show_nat n)) n")
    have "show_nat n \<noteq> show_nat 0" using that show_nat_inj[of n 0] by auto
    moreover have "show_nat 0 = ''0''" by (simp add: show_nat.simps digit_char_def)
    moreover have "mantissa (show_nat s) @ ''e+'' @ x \<noteq> ''0''" for x
      using show_nat_nonempty[of s] by (cases "show_nat s"; cases "tl (show_nat s)") (auto simp: mantissa_def)
    ultimately show ?thesis using show_int_nat[OF that st] by auto
  qed
  show ?thesis
  proof (cases "a = 0 \<or> b = 0")
    case True
    have "n = 0" if "show_int (int n) = ''0''" for n
      using that pos[of n] by (cases "0 < n") simp_all
    then show ?thesis using True assms by (metis of_nat_0 show_int_zero)
  next
    case False
    then have a: "0 < a" and b: "0 < b" by simp_all
    obtain sa ta where sta: "strip_zeros (length (show_nat a)) a = (sa, ta)" by (cases "strip_zeros (length (show_nat a)) a")
    obtain sb tb where stb: "strip_zeros (length (show_nat b)) b = (sb, tb)" by (cases "strip_zeros (length (show_nat b)) b")
    note ia = show_int_nat[OF a sta] and ib = show_int_nat[OF b stb]
    have va: "a = sa * 10 ^ ta" using sta by (rule strip_zeros_value)
    have vb: "b = sb * 10 ^ tb" using stb by (rule strip_zeros_value)
    have me: "CHR ''e'' \<notin> set (mantissa (show_nat s))" for s
      using mantissa_chars[of "show_nat s"] digits_no_e(1)[of s] by auto
    have plain_exp: False if "show_nat x = mantissa (show_nat s) @ ''e+'' @ y" for x s y
    proof -
      have "CHR ''e'' \<in> set (show_nat x)" unfolding that by simp
      then show False using digits_no_e(1) by simp
    qed
    show ?thesis
    proof (cases "length (show_nat a) \<le> 21")
      case la: True
      show ?thesis
      proof (cases "length (show_nat b) \<le> 21")
        case True
        then show ?thesis using assms ia ib la show_nat_inj by simp
      next
        case False
        then have "show_nat a = mantissa (show_nat sb) @ ''e+'' @ show_nat (length (show_nat b) - 1)"
          using assms ia ib la by simp
        then show ?thesis using plain_exp by blast
      qed
    next
      case la: False
      show ?thesis
      proof (cases "length (show_nat b) \<le> 21")
        case True
        then have "show_nat b = mantissa (show_nat sa) @ ''e+'' @ show_nat (length (show_nat a) - 1)"
          using assms ia ib la by simp
        then show ?thesis using plain_exp by blast
      next
        case False
        have eq: "mantissa (show_nat sa) @ CHR ''e'' # (CHR ''+'' # show_nat (length (show_nat a) - 1))
                = mantissa (show_nat sb) @ CHR ''e'' # (CHR ''+'' # show_nat (length (show_nat b) - 1))"
          using assms ia ib la False by simp
        have m: "mantissa (show_nat sa) = mantissa (show_nat sb)"
          and e: "show_nat (length (show_nat a) - 1) = show_nat (length (show_nat b) - 1)"
          using split_at_sep[OF me me eq] by simp_all
        have "show_nat sa = show_nat sb" using m by (rule mantissa_inj)
        then have s: "sa = sb" by (rule show_nat_inj)
        have "length (show_nat a) - 1 = length (show_nat b) - 1" using e by (rule show_nat_inj)
        then have l: "length (show_nat a) = length (show_nat b)" using la False by simp
        have sa0: "0 < sa" using a va by (cases sa) auto
        have "show_nat (sa * 10 ^ ta) = show_nat sa @ replicate ta CHR ''0''"
          using sa0 by (rule show_nat_shift)
        moreover have "show_nat (sa * 10 ^ tb) = show_nat sa @ replicate tb CHR ''0''"
          using sa0 by (rule show_nat_shift)
        ultimately have "length (show_nat a) = length (show_nat sa) + ta"
          and "length (show_nat b) = length (show_nat sa) + tb"
          using va vb s by simp_all
        then have "ta = tb" using l by simp
        then show ?thesis using va vb s by simp
      qed
    qed
  qed
qed

lemma show_int_minus_one: "show_int (- 1) = ''-1''"
  by code_simp

lemma show_int_head: "show_int (int n) @ xs \<noteq> CHR ''-'' # ys"
  using show_int_nonempty[of n] show_int_no_dash[of n]
  by (cases "show_int (int n)") auto

section \<open>Cell edit and re-validation (C7)\<close>

lemma find_filter: "find Q xs = (case filter Q xs of [] \<Rightarrow> None | x # _ \<Rightarrow> Some x)"
  by (induction xs) auto

lemma filter_insert_index:
  "\<not> Q k \<Longrightarrow> filter Q (map fst (insert_index n k v kvs)) = filter Q (map fst kvs)"
  by (induction n k v kvs rule: insert_index.induct) auto

lemma filter_keys_obj_set: "\<not> Q k \<Longrightarrow> filter Q (map fst (obj_set kvs k v)) = filter Q (map fst kvs)"
  unfolding obj_set_def by (simp add: filter_insert_index map_fst_replace del: map_map set_map)

lemma find_keys_obj_set: "\<not> Q k \<Longrightarrow> find Q (map fst (obj_set kvs k v)) = find Q (map fst kvs)"
  by (simp add: find_filter[of Q] filter_keys_obj_set)

lemma obj_get_obj_set: "obj_get (obj_set kvs k v) k' = (if k' = k then v else obj_get kvs k')"
  by (simp add: obj_get_def map_of_obj_set)

lemma find_holds: "find Q xs = Some x \<Longrightarrow> Q x"
  by (induction xs) (auto split: if_splits)

lemma gnv_frame:
  assumes "\<forall>f \<in> set fs. normalizeFieldName f \<noteq> normalizeFieldName k"
  shows "getNormalizedValue (obj_set row k v) fs = getNormalizedValue row fs"
  using assms
proof (induction fs)
  case Nil
  then show ?case by (simp add: getNormalizedValue.simps)
next
  case (Cons f fs)
  let ?Q = "\<lambda>key. normalizeFieldName key = normalizeFieldName f"
  have nq: "\<not> ?Q k" using Cons.prems by auto
  have same: "find ?Q (map fst (obj_set row k v)) = find ?Q (map fst row)"
    using nq by (rule find_keys_obj_set)
  show ?case
  proof (cases "find ?Q (map fst row)")
    case None
    then show ?thesis using same Cons by (simp add: getNormalizedValue.simps)
  next
    case (Some k')
    then have "?Q k'" by (rule find_holds)
    then have "k' \<noteq> k" using nq by auto
    then show ?thesis using same Some by (simp add: getNormalizedValue.simps obj_get_obj_set)
  qed
qed

lemma normalize_empty: "normalizeFieldName [] = []"
  by (simp add: normalizeFieldName_def toLowerCase_def)

lemma find_append: "find Q (xs @ ys) = (case find Q xs of None \<Rightarrow> find Q ys | Some x \<Rightarrow> Some x)"
  by (induction xs) auto

lemma normalize_priorityLevel: "normalizeFieldName ''priorityLevel'' = ''prioritylevel''"
  by code_simp

lemma priorityLevel_not_index: "\<not> is_array_index ''priorityLevel''"
  by code_simp

lemma keyToUpdate_normal:
  "normalizeFieldName (keyToUpdate row ''priorityLevel'') = normalizeFieldName ''priorityLevel''"
  by (auto simp: keyToUpdate_def split: option.splits dest: find_holds)

lemma gnv_edited:
  "getNormalizedValue (obj_set row (keyToUpdate row ''priorityLevel'') v) (''priorityLevel'' # fs) = v"
proof -
  let ?Q = "\<lambda>key. normalizeFieldName key = normalizeFieldName ''priorityLevel''"
  show ?thesis
  proof (cases "find ?Q (map fst row)")
    case None
    then have key: "keyToUpdate row ''priorityLevel'' = ''priorityLevel''"
      by (simp add: keyToUpdate_def)
    have "''priorityLevel'' \<notin> set (map fst row)"
      using None by (auto simp: find_None_iff)
    then have "obj_set row ''priorityLevel'' v = row @ [(''priorityLevel'', v)]"
      using priorityLevel_not_index by (simp add: obj_set_def)
    then have "map fst (obj_set row ''priorityLevel'' v) = map fst row @ [''priorityLevel'']"
      by simp
    then have "find ?Q (map fst (obj_set row ''priorityLevel'' v)) = Some ''priorityLevel''"
      using None by (simp add: find_append)
    then show ?thesis
      using key by (simp add: getNormalizedValue.simps obj_get_obj_set)
  next
    case (Some k0)
    then have q: "?Q k0" by (rule find_holds)
    then have "k0 \<noteq> []" using normalize_empty normalize_priorityLevel by auto
    then have key: "keyToUpdate row ''priorityLevel'' = k0"
      using Some by (simp add: keyToUpdate_def)
    have "k0 \<in> set (map fst row)" using Some by (metis find_Some_iff nth_mem)
    then have "map fst (obj_set row k0 v) = map fst row"
      by (simp add: obj_set_def map_fst_replace del: map_map set_map)
    then show ?thesis
      using Some key by (simp add: getNormalizedValue.simps obj_get_obj_set)
  qed
qed

text \<open>Every diagnostic of a row validation is built for that entity and that row.\<close>

lemma json_column_created:
  assumes "json_column_errors ent idx row = Some es"
    and "\<And>k m. includes_str (normalizeFieldName k) ''json'' \<Longrightarrow> P (createError ent (int idx) k m error)"
  shows "list_all P es"
  using assms(1) unfolding json_column_errors_def
proof (rule collect_all)
  fix key ys
  assume "(if includes_str (normalizeFieldName key) ''json'' then do {
          (result, err) \<leftarrow> parseJsonString (obj_get row key);
          Some (if truthy_str err then [createError ent (int idx) key (the err) error] else [])
        } else Some []) = Some ys"
  then show "list_all P ys"
    using assms(2) by (cases "includes_str (normalizeFieldName key) ''json''") (auto simp: identified_simps)
qed

lemma validate_client_split:
  "validate_client row idx sh =
     map_option
       (\<lambda>rest. (if priority_out_of_range (getNormalizedValue row [''priorityLevel'', ''priority''])
                 then [createError clients (int idx) ''priorityLevel'' ''Priority must be 1-5.'' error] else []) @ rest)
       (client_requests row idx sh)"
  unfolding validate_client_def client_requests_def Let_def
  by (cases "parseArrayString (getNormalizedValue row [''requestedTasks'', ''requestedTaskIDs''])")
     (simp_all add: split_def)

lemma client_requests_created:
  assumes "client_requests row idx sh = Some es"
    and "\<And>m. P (createError clients (int idx) ''requestedTasks'' m error)"
  shows "list_all P es"
  using assms unfolding client_requests_def
  by (clarsimp simp: identified_simps)

lemma validate_worker_created:
  assumes "validate_worker row idx sh = Some es"
    and "\<And>f m. P (createError workers (int idx) f m error)"
  shows "list_all P es"
  using assms unfolding validate_worker_def
  by (clarsimp simp: identified_simps)

lemma max_concurrent_created:
  assumes "max_concurrent_errors row idx sh = Some es"
    and "\<And>f m. P (createError tasks (int idx) f m error)"
  shows "list_all P es"
  using assms unfolding max_concurrent_errors_def
  by (auto simp: identified_simps split: if_splits)

lemma validate_task_created:
  assumes "validate_task row idx sh = Some es"
    and "\<And>f m. P (createError tasks (int idx) f m error)"
  shows "list_all P es"
proof -
  have mc: "list_all P e4" if "max_concurrent_errors row idx sh = Some e4" for e4
    using that assms(2) by (rule max_concurrent_created)
  show ?thesis
    using assms(1) unfolding validate_task_def
    by (clarsimp simp: identified_simps assms(2) mc)
qed

lemma filter_all: "list_all P es \<Longrightarrow> filter P es = es"
  by (simp add: list_all_iff)

lemma schema_dataset_level:
  "(\<And>e f m l. P (createError e (- 1) f m l)) \<Longrightarrow> list_all P (schema_errors sh)"
  by (simp add: schema_errors_def Let_def entity_keys_def)

lemma phase_dataset_level:
  "(\<And>e f m l. P (createError e (- 1) f m l)) \<Longrightarrow> phase_errors sh = Some es \<Longrightarrow> list_all P es"
  unfolding phase_errors_def
  by (clarsimp simp: identified_simps saturation_error_def split: total.splits)

lemma skill_dataset_level:
  "(\<And>e f m l. P (createError e (- 1) f m l)) \<Longrightarrow> skill_errors sh = Some es \<Longrightarrow> list_all P es"
  unfolding skill_errors_def
  by (clarsimp simp: identified_simps)

lemma corun_dataset_level:
  assumes "\<And>e f m l. P (createError e (- 1) f m l)" "corun_errors rs sh = Some es"
  shows "list_all P es"
  using assms(2) unfolding corun_errors_def
proof (rule collect_all)
  fix r ys
  assume "corun_rule_errors sh (case rule_tasks r of None \<Rightarrow> [] | Some ts \<Rightarrow> ts) = Some ys"
  then show "list_all P ys"
    unfolding corun_rule_errors_def using assms(1) by (clarsimp simp: identified_simps)
qed

lemma slot_dataset_level:
  assumes "\<And>e f m l. P (createError e (- 1) f m l)"
  shows "list_all P (slot_errors rs sh)"
proof -
  have "list_all P (slot_rule_errors sh r)" for r
    using assms by (simp add: slot_rule_errors_def split: option.splits)
  then show ?thesis by (simp add: slot_errors_def list_all_concat_map list_all_True)
qed

lemma not_edited_dataset_level: "\<not> edited_cell idx (createError e (- 1) f m l)"
  by (simp add: edited_cell_def createError_def)

lemma duplicate_loop_field: "list_all (\<lambda>d. field d = ''id'') (duplicate_loop ent ids i rows)"
  by (induction rows arbitrary: ids i) (auto simp: Let_def createError_def split: option.splits)

lemma duplicate_not_edited: "filter (\<lambda>d. \<not> edited_cell idx d) (duplicate_errors sh) = duplicate_errors sh"
proof (rule filter_all)
  have "list_all (\<lambda>d. \<not> edited_cell idx d) (duplicate_loop ent Map.empty 0 rows)" for ent rows
    using duplicate_loop_field[of ent Map.empty 0 rows] by (auto simp: list_all_iff edited_cell_def)
  then show "list_all (\<lambda>d. \<not> edited_cell idx d) (duplicate_errors sh)"
    by (simp add: duplicate_errors_def entity_keys_def)
qed

lemma duplicate_loop_cong:
  "map (\<lambda>r. getNormalizedValue r (id_fields ent)) rows = map (\<lambda>r. getNormalizedValue r (id_fields ent)) rows'
   \<Longrightarrow> duplicate_loop ent ids i rows = duplicate_loop ent ids i rows'"
proof (induction rows arbitrary: rows' ids i)
  case Nil
  then show ?case by simp
next
  case (Cons r rows)
  then obtain r' rest where rows': "rows' = r' # rest" by (cases rows') auto
  have h: "getNormalizedValue r (id_fields ent) = getNormalizedValue r' (id_fields ent)"
    and t: "map (\<lambda>r. getNormalizedValue r (id_fields ent)) rows = map (\<lambda>r. getNormalizedValue r (id_fields ent)) rest"
    using Cons.prems rows' by auto
  show ?case
    unfolding rows' using h Cons.IH[OF t] by (simp add: Let_def fun_upd_def split: option.splits)
qed

lemma normalize_id_fields:
  "\<forall>f\<in>set (id_fields clients). normalizeFieldName f \<noteq> normalizeFieldName ''priorityLevel''"
  by code_simp

lemma normalize_group_fields:
  "\<forall>f\<in>set [''groupTag'', ''clientGroup'']. normalizeFieldName f \<noteq> normalizeFieldName ''priorityLevel''"
  by code_simp

lemma edit_workers [simp]: "edit_sheets old clients idx h v workers = old workers"
  and edit_tasks [simp]: "edit_sheets old clients idx h v tasks = old tasks"
  by (simp_all add: edit_sheets_def Let_def)

lemma edit_clients:
  "edit_sheets old clients idx h v clients = (old clients)\<lparr>jsonData := (jsonData (old clients))[idx := obj_set (jsonData (old clients) ! idx) (keyToUpdate (jsonData (old clients) ! idx) h) (JStr v)]\<rparr>"
  by (simp add: edit_sheets_def Let_def)

lemma validateRow_sheets:
  assumes "sh workers = sh' workers" "sh tasks = sh' tasks"
  shows "validateRow ent row i sh = validateRow ent row i sh'"
proof -
  have "validate_client row i sh = validate_client row i sh'"
    by (simp only: validate_client_def assms)
  moreover have "validate_worker row i sh = validate_worker row i sh'"
    by (simp only: validate_worker_def assms)
  moreover have "max_concurrent_errors row i sh = max_concurrent_errors row i sh'"
    by (simp only: max_concurrent_errors_def assms)
  then have "validate_task row i sh = validate_task row i sh'"
    by (simp only: validate_task_def assms)
  ultimately show ?thesis
    by (simp only: validateRow_def)
qed

lemma phase_errors_sheets:
  "sh workers = sh' workers \<Longrightarrow> sh tasks = sh' tasks \<Longrightarrow> phase_errors sh = phase_errors sh'"
  by (simp add: phase_errors_def)

lemma skill_errors_sheets:
  "sh workers = sh' workers \<Longrightarrow> sh tasks = sh' tasks \<Longrightarrow> skill_errors sh = skill_errors sh'"
  by (simp add: skill_errors_def)

lemma corun_errors_sheets:
  "sh tasks = sh' tasks \<Longrightarrow> corun_errors rs sh = corun_errors rs sh'"
  by (simp add: corun_errors_def corun_rule_errors_def)

lemma list_ex_update:
  "Q y = Q (xs ! i) \<Longrightarrow> i < length xs \<Longrightarrow> list_ex Q (xs[i := y]) = list_ex Q xs"
  by (induction xs arbitrary: i) (auto split: nat.splits)

lemma map_update_same:
  "f y = f (xs ! i) \<Longrightarrow> i < length xs \<Longrightarrow> map f (xs[i := y]) = map f xs"
  by (simp add: map_update list_update_same_conv)

lemma collect_filter_keys:
  "(\<And>x. \<not> Q x \<Longrightarrow> f x = Some []) \<Longrightarrow> collect f (filter Q xs) = collect f xs"
  by (induction xs) auto

lemma collect_cong_set:
  "(\<And>x. x \<in> set xs \<Longrightarrow> f x = g x) \<Longrightarrow> collect f xs = collect g xs"
  by (induction xs) auto

lemma json_column_frame:
  assumes "\<not> includes_str (normalizeFieldName k) ''json''"
  shows "json_column_errors ent idx (obj_set row k v) = json_column_errors ent idx row"
proof -
  let ?Q = "\<lambda>key. includes_str (normalizeFieldName key) ''json''"
  let ?g = "\<lambda>r key. if includes_str (normalizeFieldName key) ''json'' then do {
          (result, err) \<leftarrow> parseJsonString (obj_get r key);
          Some (if truthy_str err then [createError ent (int idx) key (the err) error] else [])
        } else Some []"
  have "collect (?g (obj_set row k v)) (map fst (obj_set row k v))
      = collect (?g (obj_set row k v)) (filter ?Q (map fst (obj_set row k v)))"
    by (rule collect_filter_keys[symmetric]) simp
  also have "\<dots> = collect (?g (obj_set row k v)) (filter ?Q (map fst row))"
    using filter_keys_obj_set[of ?Q k row v] assms by simp
  also have "\<dots> = collect (?g row) (filter ?Q (map fst row))"
  proof (rule collect_cong_set)
    fix x assume "x \<in> set (filter ?Q (map fst row))"
    then have "x \<noteq> k" using assms by auto
    then show "?g (obj_set row k v) x = ?g row x" by (simp add: obj_get_obj_set)
  qed
  also have "\<dots> = collect (?g row) (map fst row)"
    by (rule collect_filter_keys) simp
  finally show ?thesis unfolding json_column_errors_def .
qed

lemma priorityLevel_not_json: "\<not> includes_str (normalizeFieldName ''priorityLevel'') ''json''"
  by code_simp

lemma normalize_request_fields:
  "\<forall>f\<in>set [''requestedTasks'', ''requestedTaskIDs'']. normalizeFieldName f \<noteq> normalizeFieldName ''priorityLevel''"
  by code_simp

lemma map_option_filter_append:
  "map_option (filter P) (do { a \<leftarrow> x; b \<leftarrow> y; Some (a @ b) }) =
   do { a \<leftarrow> map_option (filter P) x; b \<leftarrow> map_option (filter P) y; Some (a @ b) }"
  by (cases x; cases y) simp_all

lemma validateRow_edited:
  assumes "\<not> priority_out_of_range (JStr v)"
  shows "validateRow clients (obj_set row (keyToUpdate row ''priorityLevel'') (JStr v)) idx sh
       = map_option (filter (\<lambda>d. \<not> edited_cell idx d)) (validateRow clients row idx sh)"
proof -
  let ?k = "keyToUpdate row ''priorityLevel''"
  let ?row' = "obj_set row ?k (JStr v)"
  let ?P = "\<lambda>d. \<not> edited_cell idx d"
  have nk: "normalizeFieldName ?k = normalizeFieldName ''priorityLevel''"
    by (rule keyToUpdate_normal)
  have j: "json_column_errors clients idx ?row' = json_column_errors clients idx row"
    by (rule json_column_frame) (simp only: nk priorityLevel_not_json not_False_eq_True)
  have jf: "map_option (filter ?P) (json_column_errors clients idx row) = json_column_errors clients idx row"
  proof (cases "json_column_errors clients idx row")
    case (Some es)
    have "list_all ?P es"
      using Some
    proof (rule json_column_created)
      fix k m assume "includes_str (normalizeFieldName k) ''json''"
      then have "k \<noteq> ''priorityLevel''" using priorityLevel_not_json by auto
      then show "\<not> edited_cell idx (createError clients (int idx) k m error)"
        by (simp add: edited_cell_def createError_def)
    qed
    then show ?thesis using Some by (simp add: filter_all)
  qed simp
  have r: "client_requests ?row' idx sh = client_requests row idx sh"
    unfolding client_requests_def
    using normalize_request_fields by (simp only: gnv_frame nk)
  have rf: "map_option (filter ?P) (client_requests row idx sh) = client_requests row idx sh"
  proof (cases "client_requests row idx sh")
    case (Some es)
    have "list_all ?P es"
      using Some by (rule client_requests_created) (simp add: edited_cell_def createError_def)
    then show ?thesis using Some by (simp add: filter_all)
  qed simp
  have c': "validate_client ?row' idx sh = client_requests row idx sh"
    using assms by (simp add: validate_client_split gnv_edited r option.map_ident)
  have c: "map_option (filter ?P) (validate_client row idx sh) = client_requests row idx sh"
  proof (cases "client_requests row idx sh")
    case (Some es)
    then have "filter ?P es = es" using rf by simp
    then show ?thesis using Some
      by (simp add: validate_client_split edited_cell_def createError_def)
  qed (simp add: validate_client_split)
  show ?thesis
    unfolding validateRow_def
    by (simp only: EntityType.case map_option_filter_append j jf c c')
qed

lemma validateRow_placed:
  assumes "validateRow ent row i sh = Some es"
  shows "list_all (placed ent (int i)) es"
proof -
  obtain js ee where js: "json_column_errors ent i row = Some js"
    and ee: "(case ent of clients \<Rightarrow> validate_client row i sh | workers \<Rightarrow> validate_worker row i sh
              | tasks \<Rightarrow> validate_task row i sh) = Some ee"
    and es: "es = js @ ee"
    using assms unfolding validateRow_def by (auto simp: bind_eq_Some_conv)
  have p: "placed e (int i) (createError e (int i) f m l)" for e f m l
    by (simp add: placed_def createError_def)
  have "list_all (placed ent (int i)) js"
    using js by (rule json_column_created) (rule p)
  moreover have "list_all (placed ent (int i)) ee"
  proof (cases ent)
    case clients
    then obtain rest where "client_requests row i sh = Some rest"
      and "ee = (if priority_out_of_range (getNormalizedValue row [''priorityLevel'', ''priority''])
                 then [createError clients (int i) ''priorityLevel'' ''Priority must be 1-5.'' error] else []) @ rest"
      using ee by (auto simp: validate_client_split)
    moreover from this(1) have "list_all (placed clients (int i)) rest"
      by (rule client_requests_created) (rule p)
    ultimately show ?thesis using clients by (simp add: p)
  next
    case workers
    then show ?thesis using ee validate_worker_created[of row i sh ee "placed workers (int i)"] p by simp
  next
    case tasks
    then show ?thesis using ee validate_task_created[of row i sh ee "placed tasks (int i)"] p by simp
  qed
  ultimately show ?thesis using es by simp
qed

lemma collect_filter_rel:
  "list_all2 (\<lambda>x y. g y = map_option (filter P) (f x)) xs ys
   \<Longrightarrow> collect g ys = map_option (filter P) (collect f xs)"
proof (induction rule: list_all2_induct)
  case Nil
  then show ?case by simp
next
  case (Cons x xs y ys)
  then show ?case
    by (cases "f x"; cases "collect f xs") simp_all
qed

lemma rows_edited:
  assumes "\<not> priority_out_of_range (JStr v)" and "idx < length rows"
    and "sh' workers = sh workers" "sh' tasks = sh tasks"
  shows "collect (\<lambda>(i, row). validateRow clients row i sh')
           (enumerate 0 (rows[idx := obj_set (rows ! idx) (keyToUpdate (rows ! idx) ''priorityLevel'') (JStr v)]))
       = map_option (filter (\<lambda>d. \<not> edited_cell idx d))
           (collect (\<lambda>(i, row). validateRow clients row i sh) (enumerate 0 rows))"
proof (rule collect_filter_rel, rule list_all2_all_nthI)
  let ?rows' = "rows[idx := obj_set (rows ! idx) (keyToUpdate (rows ! idx) ''priorityLevel'') (JStr v)]"
  show "length (enumerate 0 rows) = length (enumerate 0 ?rows')" by simp
  fix n assume "n < length (enumerate 0 rows)"
  then have n: "n < length rows" by simp
  have same: "validateRow clients r m sh' = validateRow clients r m sh" for r m
    using assms(3,4) by (rule validateRow_sheets)
  show "(case enumerate 0 ?rows' ! n of (i, row) \<Rightarrow> validateRow clients row i sh')
      = map_option (filter (\<lambda>d. \<not> edited_cell idx d))
          (case enumerate 0 rows ! n of (i, row) \<Rightarrow> validateRow clients row i sh)"
  proof (cases "n = idx")
    case True
    then show ?thesis
      using n assms(1) by (simp add: nth_enumerate_eq same validateRow_edited)
  next
    case False
    have "map_option (filter (\<lambda>d. \<not> edited_cell idx d)) (validateRow clients (rows ! n) n sh)
        = validateRow clients (rows ! n) n sh"
    proof (cases "validateRow clients (rows ! n) n sh")
      case (Some es)
      then have "list_all (placed clients (int n)) es" by (rule validateRow_placed)
      then have "list_all (\<lambda>d. \<not> edited_cell idx d) es"
        using False by (auto simp: list_all_iff placed_def edited_cell_def)
      then show ?thesis using Some by (simp add: filter_all)
    qed simp
    then show ?thesis
      using n False by (simp add: nth_enumerate_eq same)
  qed
qed

lemma rows_other:
  assumes "ent \<noteq> clients" "sh' workers = sh workers" "sh' tasks = sh tasks"
  shows "collect (\<lambda>(i, row). validateRow ent row i sh') (enumerate 0 rows)
       = map_option (filter (\<lambda>d. \<not> edited_cell idx d))
           (collect (\<lambda>(i, row). validateRow ent row i sh) (enumerate 0 rows))"
proof (rule collect_filter_rel, rule list_all2_all_nthI)
  show "length (enumerate 0 rows) = length (enumerate 0 rows)" by simp
  fix n assume "n < length (enumerate 0 rows)"
  then have n: "n < length rows" by simp
  have sheets: "validateRow ent r n sh' = validateRow ent r n sh" for r
    using assms(2,3) by (rule validateRow_sheets)
  have "map_option (filter (\<lambda>d. \<not> edited_cell idx d)) (validateRow ent (rows ! n) n sh)
      = validateRow ent (rows ! n) n sh"
  proof (cases "validateRow ent (rows ! n) n sh")
    case (Some es)
    then have "list_all (placed ent (int n)) es" by (rule validateRow_placed)
    then have "list_all (\<lambda>d. \<not> edited_cell idx d) es"
      using assms(1) by (auto simp: list_all_iff placed_def edited_cell_def)
    then show ?thesis using Some by (simp add: filter_all)
  qed simp
  then show "(case enumerate 0 rows ! n of (i, row) \<Rightarrow> validateRow ent row i sh')
      = map_option (filter (\<lambda>d. \<not> edited_cell idx d))
          (case enumerate 0 rows ! n of (i, row) \<Rightarrow> validateRow ent row i sh)"
    using n by (simp add: nth_enumerate_eq sheets)
qed

lemma row_errors_edited:
  assumes "\<not> priority_out_of_range (JStr v)" and "idx < length (jsonData (old clients))"
  shows "row_errors (edit_sheets old clients idx ''priorityLevel'' v)
       = map_option (filter (\<lambda>d. \<not> edited_cell idx d)) (row_errors old)"
proof -
  let ?new = "edit_sheets old clients idx ''priorityLevel'' v"
  have w: "?new workers = old workers" and t: "?new tasks = old tasks" by simp_all
  have c: "collect (\<lambda>(i, row). validateRow clients row i ?new) (enumerate 0 (jsonData (?new clients)))
       = map_option (filter (\<lambda>d. \<not> edited_cell idx d))
           (collect (\<lambda>(i, row). validateRow clients row i old) (enumerate 0 (jsonData (old clients))))"
    using rows_edited[OF assms w t] by (simp add: edit_clients)
  have o: "collect (\<lambda>(i, row). validateRow ent row i ?new) (enumerate 0 (jsonData (old ent)))
       = map_option (filter (\<lambda>d. \<not> edited_cell idx d))
           (collect (\<lambda>(i, row). validateRow ent row i old) (enumerate 0 (jsonData (old ent))))"
    if "ent \<noteq> clients" for ent
    using rows_other[OF that w t, of "jsonData (old ent)" idx] .
  show ?thesis
    unfolding row_errors_def
  proof (rule collect_filter_rel)
    show "list_all2 (\<lambda>x y.
        collect (\<lambda>(i, row). validateRow y row i ?new) (enumerate 0 (jsonData (?new y)))
        = map_option (filter (\<lambda>d. \<not> edited_cell idx d))
            (collect (\<lambda>(i, row). validateRow x row i old) (enumerate 0 (jsonData (old x)))))
        entity_keys entity_keys"
      unfolding entity_keys_def using c o[of workers] o[of tasks] by simp
  qed
qed

lemma schema_errors_edited:
  "schema_errors (edit_sheets old clients idx h v) = schema_errors old"
  by (simp add: schema_errors_def entity_keys_def edit_clients)

lemma duplicate_errors_edited:
  assumes "idx < length (jsonData (old clients))"
  shows "duplicate_errors (edit_sheets old clients idx ''priorityLevel'' v) = duplicate_errors old"
proof -
  let ?rows = "jsonData (old clients)"
  let ?k = "keyToUpdate (?rows ! idx) ''priorityLevel''"
  have "getNormalizedValue (obj_set (?rows ! idx) ?k (JStr v)) (id_fields clients)
      = getNormalizedValue (?rows ! idx) (id_fields clients)"
    using normalize_id_fields by (simp only: gnv_frame keyToUpdate_normal)
  then have "map (\<lambda>r. getNormalizedValue r (id_fields clients)) (?rows[idx := obj_set (?rows ! idx) ?k (JStr v)])
      = map (\<lambda>r. getNormalizedValue r (id_fields clients)) ?rows"
    using assms by (rule map_update_same)
  then have "duplicate_loop clients Map.empty 0 (?rows[idx := obj_set (?rows ! idx) ?k (JStr v)])
      = duplicate_loop clients Map.empty 0 ?rows"
    by (rule duplicate_loop_cong)
  then show ?thesis
    by (simp add: duplicate_errors_def entity_keys_def edit_clients)
qed

lemma slot_errors_edited:
  assumes "idx < length (jsonData (old clients))"
  shows "slot_errors rs (edit_sheets old clients idx ''priorityLevel'' v) = slot_errors rs old"
proof -
  let ?rows = "jsonData (old clients)"
  let ?k = "keyToUpdate (?rows ! idx) ''priorityLevel''"
  have g: "getNormalizedValue (obj_set (?rows ! idx) ?k (JStr v)) [''groupTag'', ''clientGroup'']
      = getNormalizedValue (?rows ! idx) [''groupTag'', ''clientGroup'']"
    using normalize_group_fields by (simp only: gnv_frame keyToUpdate_normal)
  have "list_ex (\<lambda>client. String (getNormalizedValue client [''groupTag'', ''clientGroup'']) = g)
          (?rows[idx := obj_set (?rows ! idx) ?k (JStr v)])
      = list_ex (\<lambda>client. String (getNormalizedValue client [''groupTag'', ''clientGroup'']) = g) ?rows" for g
    using assms by (intro list_ex_update) (simp only: g)
  then have "slot_rule_errors (edit_sheets old clients idx ''priorityLevel'' v) r = slot_rule_errors old r" for r
    by (simp add: slot_rule_errors_def edit_clients split: option.splits)
  then have "slot_rule_errors (edit_sheets old clients idx ''priorityLevel'' v) = slot_rule_errors old"
    by (intro ext)
  then show ?thesis by (simp only: slot_errors_def)
qed

lemma all_errors_edited:
  assumes "\<not> priority_out_of_range (JStr v)" and "idx < length (jsonData (old clients))"
  shows "all_errors rs (edit_sheets old clients idx ''priorityLevel'' v)
       = map_option (filter (\<lambda>d. \<not> edited_cell idx d)) (all_errors rs old)"
proof -
  let ?new = "edit_sheets old clients idx ''priorityLevel'' v"
  let ?P = "\<lambda>d. \<not> edited_cell idx d"
  have lvl: "?P (createError e (- 1) f m l)" for e f m l
    by (rule not_edited_dataset_level)
  have w: "?new workers = old workers" and t: "?new tasks = old tasks" by simp_all
  have ph: "phase_errors ?new = phase_errors old" using w t by (rule phase_errors_sheets)
  have sk: "skill_errors ?new = skill_errors old" using w t by (rule skill_errors_sheets)
  have co: "corun_errors rs ?new = corun_errors rs old" using t by (rule corun_errors_sheets)
  have sc: "schema_errors ?new = schema_errors old" by (rule schema_errors_edited)
  have du: "duplicate_errors ?new = duplicate_errors old" using assms(2) by (rule duplicate_errors_edited)
  have sl: "slot_errors rs ?new = slot_errors rs old" using assms(2) by (rule slot_errors_edited)
  have ro: "row_errors ?new = map_option (filter ?P) (row_errors old)"
    using assms by (rule row_errors_edited)
  have scf: "filter ?P (schema_errors old) = schema_errors old"
    by (rule filter_all, rule schema_dataset_level, rule lvl)
  have duf: "filter ?P (duplicate_errors old) = duplicate_errors old"
    by (rule duplicate_not_edited)
  have slf: "filter ?P (slot_errors rs old) = slot_errors rs old"
    by (rule filter_all, rule slot_dataset_level, rule lvl)
  have phf: "filter ?P es = es" if "phase_errors old = Some es" for es
    by (rule filter_all, rule phase_dataset_level[OF _ that], rule lvl)
  have skf: "filter ?P es = es" if "skill_errors old = Some es" for es
    by (rule filter_all, rule skill_dataset_level[OF _ that], rule lvl)
  have cof: "filter ?P es = es" if "corun_errors rs old = Some es" for es
    by (rule filter_all, rule corun_dataset_level[OF _ that], rule lvl)
  show ?thesis
    unfolding all_errors_def ph sk co sc du sl ro
    by (cases "row_errors old"; cases "phase_errors old"; cases "skill_errors old"; cases "corun_errors rs old")
       (simp_all add: scf duf slf phf skf cof)
qed

lemma collect_member:
  "collect f xs = Some es \<Longrightarrow> x \<in> set xs \<Longrightarrow> \<exists>ys. f x = Some ys \<and> set ys \<subseteq> set es"
proof (induction xs arbitrary: es)
  case Nil
  then show ?case by simp
next
  case (Cons a xs)
  from Cons.prems(1) obtain ys zs where a: "f a = Some ys" and z: "collect f xs = Some zs" and es: "es = ys @ zs"
    by (auto simp: bind_eq_Some_conv)
  show ?case
  proof (cases "x = a")
    case True
    then show ?thesis using a es by simp
  next
    case False
    then have "x \<in> set xs" using Cons.prems(2) by simp
    from Cons.IH[OF z this] show ?thesis using es by auto
  qed
qed

lemma priority_error_reported:
  assumes "all_errors rs sh = Some errs" and "idx < length (jsonData (sh clients))"
    and "priority_out_of_range (getNormalizedValue (jsonData (sh clients) ! idx) [''priorityLevel'', ''priority''])"
  shows "createError clients (int idx) ''priorityLevel'' ''Priority must be 1-5.'' error \<in> set errs"
proof -
  let ?rows = "jsonData (sh clients)"
  let ?d = "createError clients (int idx) ''priorityLevel'' ''Priority must be 1-5.'' error"
  from assms(1) obtain res ph sk co where res: "row_errors sh = Some res"
    and errs: "errs = schema_errors sh @ duplicate_errors sh @ res @ ph @ sk @ co @ slot_errors rs sh"
    unfolding all_errors_def by (auto simp: bind_eq_Some_conv)
  have sub: "set res \<subseteq> set errs" using errs by auto
  have "clients \<in> set entity_keys" by (simp add: entity_keys_def)
  with res obtain ces
    where ces: "collect (\<lambda>(i, row). validateRow clients row i sh) (enumerate 0 ?rows) = Some ces"
      and sub2: "set ces \<subseteq> set res"
    unfolding row_errors_def by (blast dest: collect_member)
  have "(idx, ?rows ! idx) \<in> set (enumerate 0 ?rows)"
    using assms(2) by (simp add: in_set_enumerate_eq)
  with ces obtain vs where vs: "validateRow clients (?rows ! idx) idx sh = Some vs" and sub3: "set vs \<subseteq> set ces"
    by (fastforce dest: collect_member)
  have "?d \<in> set vs"
    using vs assms(3) unfolding validateRow_def
    by (auto simp: bind_eq_Some_conv validate_client_split)
  then show ?thesis using sub sub2 sub3 by blast
qed

lemma duplicate_loop_created:
  assumes "\<And>j m. P (createError ent (int j) ''id'' m error)"
  shows "list_all P (duplicate_loop ent ids i rows)"
  by (induction rows arbitrary: ids i) (auto simp: Let_def assms split: option.splits)

lemma validateRow_created:
  assumes "validateRow ent row i sh = Some es"
    and J: "\<And>k m. includes_str (normalizeFieldName k) ''json'' \<Longrightarrow> P (createError ent (int i) k m error)"
    and Pr: "P (createError clients (int i) ''priorityLevel'' ''Priority must be 1-5.'' error)"
    and R: "\<And>m. P (createError clients (int i) ''requestedTasks'' m error)"
    and O: "\<And>f m. ent \<noteq> clients \<Longrightarrow> P (createError ent (int i) f m error)"
  shows "list_all P es"
proof -
  obtain js ee where js: "json_column_errors ent i row = Some js"
    and ee: "(case ent of clients \<Rightarrow> validate_client row i sh | workers \<Rightarrow> validate_worker row i sh
              | tasks \<Rightarrow> validate_task row i sh) = Some ee"
    and es: "es = js @ ee"
    using assms(1) unfolding validateRow_def by (auto simp: bind_eq_Some_conv)
  have "list_all P js"
    using js by (rule json_column_created) (rule J)
  moreover have "list_all P ee"
  proof (cases ent)
    case clients
    then obtain rest where "client_requests row i sh = Some rest"
      and "ee = (if priority_out_of_range (getNormalizedValue row [''priorityLevel'', ''priority''])
                 then [createError clients (int i) ''priorityLevel'' ''Priority must be 1-5.'' error] else []) @ rest"
      using ee by (auto simp: validate_client_split)
    moreover from this(1) have "list_all P rest"
      by (rule client_requests_created) (rule R)
    ultimately show ?thesis by (simp add: Pr)
  next
    case workers
    then show ?thesis using ee validate_worker_created[of row i sh ee P] O by simp
  next
    case tasks
    then show ?thesis using ee validate_task_created[of row i sh ee P] O by simp
  qed
  ultimately show ?thesis using es by simp
qed

lemma all_errors_created:
  assumes "all_errors rs sh = Some errs"
    and D: "\<And>e f m l. P (createError e (- 1) f m l)"
    and J: "\<And>i k m. includes_str (normalizeFieldName k) ''json'' \<Longrightarrow> P (createError clients (int i) k m error)"
    and Pr: "\<And>i. P (createError clients (int i) ''priorityLevel'' ''Priority must be 1-5.'' error)"
    and R: "\<And>i m. P (createError clients (int i) ''requestedTasks'' m error)"
    and I: "\<And>i m. P (createError clients (int i) ''id'' m error)"
    and O: "\<And>e i f m. e \<noteq> clients \<Longrightarrow> P (createError e (int i) f m error)"
  shows "list_all P errs"
proof -
  from assms(1) obtain res ph sk co where res: "row_errors sh = Some res"
    and ph: "phase_errors sh = Some ph" and sk: "skill_errors sh = Some sk" and co: "corun_errors rs sh = Some co"
    and errs: "errs = schema_errors sh @ duplicate_errors sh @ res @ ph @ sk @ co @ slot_errors rs sh"
    unfolding all_errors_def by (auto simp: bind_eq_Some_conv)
  have 1: "list_all P (schema_errors sh)" by (rule schema_dataset_level) (rule D)
  have "list_all P (duplicate_loop ent Map.empty 0 rows)" for ent rows
    by (rule duplicate_loop_created, cases ent) (simp_all add: I O)
  then have 2: "list_all P (duplicate_errors sh)"
    by (simp add: duplicate_errors_def entity_keys_def)
  have 3: "list_all P res"
    using res unfolding row_errors_def
  proof (rule collect_all)
    fix ent ys
    assume "collect (\<lambda>(n, r). validateRow ent r n sh) (enumerate 0 (jsonData (sh ent))) = Some ys"
    then show "list_all P ys"
    proof (rule collect_all)
      fix x zs
      assume "(case x of (n, r) \<Rightarrow> validateRow ent r n sh) = Some zs"
      then have v: "validateRow ent (snd x) (fst x) sh = Some zs" by (simp add: split_def)
      show "list_all P zs"
        using v
      proof (rule validateRow_created)
        fix k m assume "includes_str (normalizeFieldName k) ''json''"
        then show "P (createError ent (int (fst x)) k m error)"
          using J O by (cases "ent = clients") simp_all
      qed (rule Pr, rule R, rule O)
    qed
  qed
  have 4: "list_all P ph" using D ph by (rule phase_dataset_level)
  have 5: "list_all P sk" using D sk by (rule skill_dataset_level)
  have 6: "list_all P co" using D co by (rule corun_dataset_level)
  have 7: "list_all P (slot_errors rs sh)" using D by (rule slot_dataset_level)
  show ?thesis using 1 2 3 4 5 6 7 errs by simp
qed

lemma id_other_entity:
  "e \<noteq> clients \<Longrightarrow> err_id (createError e i f m l) \<noteq> err_id (createError clients j f' m' l')"
  by (cases e) (simp_all add: createError_def)

lemma id_dataset_level:
  "err_id (createError e (- 1) f m l) \<noteq> err_id (createError clients (int idx) f' m' l')"
proof (cases "e = clients")
  case True
  then show ?thesis
    using show_int_head[of idx] by (simp add: createError_def show_int_minus_one) metis
next
  case False
  then show ?thesis by (rule id_other_entity)
qed

lemma id_other_row:
  assumes "i \<noteq> idx"
  shows "err_id (createError e (int i) f m l) \<noteq> err_id (createError clients (int idx) f' m' l')"
proof (cases "e = clients")
  case True
  have "show_int (int i) @ CHR ''-'' # x \<noteq> show_int (int idx) @ CHR ''-'' # y" for x y
    using split_at_sep[OF show_int_no_dash show_int_no_dash, of i x idx y] show_int_inj[of i idx] assms
    by auto
  then show ?thesis using True by (simp add: createError_def)
next
  case False
  then show ?thesis by (rule id_other_entity)
qed

lemma prefix_is_take: "f @ rest = s \<Longrightarrow> f \<in> set (map (\<lambda>n. take n s) [0..<Suc (length s)])"
proof -
  assume "f @ rest = s"
  then have "f = take (length f) s" and "length f < Suc (length s)" by auto
  then show ?thesis by (metis (no_types, lifting) atLeastLessThan_iff image_eqI le0 set_map set_upt)
qed

lemma no_json_prefix:
  "list_all (\<lambda>p. \<not> includes_str (normalizeFieldName p) ''json'')
     (map (\<lambda>n. take n ''priorityLevel-Priority must be 1-5.'') [0..<Suc (length ''priorityLevel-Priority must be 1-5.'')])"
  by code_simp

lemma id_json_field:
  assumes "includes_str (normalizeFieldName k) ''json''"
  shows "err_id (createError clients i k m l) \<noteq> err_id (createError clients i ''priorityLevel'' ''Priority must be 1-5.'' l')"
proof
  assume "err_id (createError clients i k m l) = err_id (createError clients i ''priorityLevel'' ''Priority must be 1-5.'' l')"
  then have "k @ (''-'' @ m) = ''priorityLevel-Priority must be 1-5.''"
    by (simp add: createError_def)
  then have "k \<in> set (map (\<lambda>n. take n ''priorityLevel-Priority must be 1-5.'') [0..<Suc (length ''priorityLevel-Priority must be 1-5.'')])"
    by (rule prefix_is_take)
  then have "\<not> includes_str (normalizeFieldName k) ''json''"
    using no_json_prefix unfolding list_all_iff by blast
  then show False using assms by simp
qed

lemma id_other_field:
  "err_id (createError clients i ''requestedTasks'' m l) \<noteq> err_id (createError clients i ''priorityLevel'' m' l')"
  "err_id (createError clients i ''id'' m l) \<noteq> err_id (createError clients i ''priorityLevel'' m' l')"
  by (simp_all add: createError_def)

lemma edited_cell_id:
  assumes "all_errors rs sh = Some errs"
  shows "list_all (\<lambda>d. edited_cell idx d = (err_id d = err_id (priority_diagnostic idx))) errs"
  using assms unfolding priority_diagnostic_def
proof (rule all_errors_created)
  fix e f m l
  show "edited_cell idx (createError e (- 1) f m l)
      = (err_id (createError e (- 1) f m l) = err_id (createError clients (int idx) ''priorityLevel'' ''Priority must be 1-5.'' error))"
    using id_dataset_level[of e f m l idx] not_edited_dataset_level[of idx e f m l] by simp
next
  fix i k m assume j: "includes_str (normalizeFieldName k) ''json''"
  then have "k \<noteq> ''priorityLevel''" using priorityLevel_not_json by auto
  then have "\<not> edited_cell idx (createError clients (int i) k m error)"
    by (simp add: edited_cell_def createError_def)
  moreover have "err_id (createError clients (int i) k m error)
      \<noteq> err_id (createError clients (int idx) ''priorityLevel'' ''Priority must be 1-5.'' error)"
    using id_other_row[of i idx] id_json_field[OF j] by (cases "i = idx") simp_all
  ultimately show "edited_cell idx (createError clients (int i) k m error)
      = (err_id (createError clients (int i) k m error) = err_id (createError clients (int idx) ''priorityLevel'' ''Priority must be 1-5.'' error))"
    by simp
next
  fix i
  show "edited_cell idx (createError clients (int i) ''priorityLevel'' ''Priority must be 1-5.'' error)
      = (err_id (createError clients (int i) ''priorityLevel'' ''Priority must be 1-5.'' error)
           = err_id (createError clients (int idx) ''priorityLevel'' ''Priority must be 1-5.'' error))"
  proof (cases "i = idx")
    case True
    then show ?thesis by (simp add: edited_cell_def createError_def)
  next
    case False
    then have "\<not> edited_cell idx (createError clients (int i) ''priorityLevel'' ''Priority must be 1-5.'' error)"
      by (simp add: edited_cell_def createError_def)
    then show ?thesis using id_other_row[OF False] by simp
  qed
next
  fix i m
  have "\<not> edited_cell idx (createError clients (int i) ''requestedTasks'' m error)"
    by (simp add: edited_cell_def createError_def)
  moreover have "err_id (createError clients (int i) ''requestedTasks'' m error)
      \<noteq> err_id (createError clients (int idx) ''priorityLevel'' ''Priority must be 1-5.'' error)"
    using id_other_row[of i idx] id_other_field(1) by (cases "i = idx") simp_all
  ultimately show "edited_cell idx (createError clients (int i) ''requestedTasks'' m error)
      = (err_id (createError clients (int i) ''requestedTasks'' m error) = err_id (createError clients (int idx) ''priorityLevel'' ''Priority must be 1-5.'' error))"
    by simp
next
  fix i m
  have "\<not> edited_cell idx (createError clients (int i) ''id'' m error)"
    by (simp add: edited_cell_def createError_def)
  moreover have "err_id (createError clients (int i) ''id'' m error)
      \<noteq> err_id (createError clients (int idx) ''priorityLevel'' ''Priority must be 1-5.'' error)"
    using id_other_row[of i idx] id_other_field(2) by (cases "i = idx") simp_all
  ultimately show "edited_cell idx (createError clients (int i) ''id'' m error)
      = (err_id (createError clients (int i) ''id'' m error) = err_id (createError clients (int idx) ''priorityLevel'' ''Priority must be 1-5.'' error))"
    by simp
next
  fix e :: EntityType and i f m assume e: "e \<noteq> clients"
  then have "\<not> edited_cell idx (createError e (int i) f m error)"
    by (simp add: edited_cell_def createError_def)
  then show "edited_cell idx (createError e (int i) f m error)
      = (err_id (createError e (int i) f m error) = err_id (createError clients (int idx) ''priorityLevel'' ''Priority must be 1-5.'' error))"
    using id_other_entity[OF e] by simp
qed

lemma two_clients_errors: "all_errors [] two_clients = Some [priority_error, missing_task, second_priority]"
  by code_simp

lemma two_clients_edit:
  "jsonData (edit_sheets two_clients clients 0 ''priorityLevel'' ''3'' clients)
     = [[(''id'', JStr ''C1''), (''PriorityLevel'', JStr ''3''), (''requestedTasks'', JStr ''T9'')],
        [(''id'', JStr ''C2''), (''priority'', JStr ''9'')]]"
  by code_simp

lemma two_clients_hyps:
  "priority_out_of_range (getNormalizedValue (jsonData (two_clients clients) ! 0) [''priorityLevel'', ''priority''])"
  "\<not> priority_out_of_range (JStr ''3'')"
  "0 < length (jsonData (two_clients clients))"
  by code_simp+

text \<open>
  Claim C7. Editing the \<^verbatim>\<open>priorityLevel\<close> cell of a client row whose priority was out
  of range to a value in range: the old pass reported the priority diagnostic of that row;
  the cell edit writes the value under the row's key that normalizes like the header (or
  under the header itself) and re-validation returns; the new diagnostics are the old
  ones, in the same order and with the same ids, without those carrying the id of the
  fixed diagnostic, so that id is gone and every other one is reproduced; and the row's
  priority now reads as the value written.
\<close>

theorem priority_edit_revalidation:
  assumes "idx < length (jsonData (sheets st clients))"
    and "priority_out_of_range (getNormalizedValue (jsonData (sheets st clients) ! idx) [''priorityLevel'', ''priority''])"
    and "\<not> priority_out_of_range (JStr v)"
    and "all_errors (rules st) (sheets st) = Some errs"
  shows "priority_diagnostic idx \<in> set errs
       \<and> handleCellEdit clients idx ''priorityLevel'' v st =
           Some (st\<lparr>sheets := edit_sheets (sheets st) clients idx ''priorityLevel'' v,
                    validationErrors := filter (\<lambda>d. err_id d \<noteq> err_id (priority_diagnostic idx)) errs,
                    validationProgress := 100\<rparr>)
       \<and> getNormalizedValue (jsonData (edit_sheets (sheets st) clients idx ''priorityLevel'' v clients) ! idx)
            [''priorityLevel'', ''priority''] = JStr v"
proof -
  have a: "priority_diagnostic idx \<in> set errs"
    unfolding priority_diagnostic_def using assms(4,1,2) by (rule priority_error_reported)
  have "list_all (\<lambda>d. edited_cell idx d = (err_id d = err_id (priority_diagnostic idx))) errs"
    using assms(4) by (rule edited_cell_id)
  then have f: "filter (\<lambda>d. \<not> edited_cell idx d) errs
              = filter (\<lambda>d. err_id d \<noteq> err_id (priority_diagnostic idx)) errs"
    by (intro filter_cong) (simp_all add: list_all_iff)
  have "all_errors (rules st) (edit_sheets (sheets st) clients idx ''priorityLevel'' v)
      = Some (filter (\<lambda>d. \<not> edited_cell idx d) errs)"
    using all_errors_edited[where old="sheets st" and rs="rules st" and v=v and idx=idx] assms(1,3,4) by simp
  then have b: "handleCellEdit clients idx ''priorityLevel'' v st =
           Some (st\<lparr>sheets := edit_sheets (sheets st) clients idx ''priorityLevel'' v,
                    validationErrors := filter (\<lambda>d. err_id d \<noteq> err_id (priority_diagnostic idx)) errs,
                    validationProgress := 100\<rparr>)"
    using assms(1) by (simp add: handleCellEdit_def validateAllData_def Let_def f)
  have c: "getNormalizedValue (jsonData (edit_sheets (sheets st) clients idx ''priorityLevel'' v clients) ! idx)
            [''priorityLevel'', ''priority''] = JStr v"
    using assms(1) by (simp add: edit_clients gnv_edited)
  show ?thesis using a b c by simp
qed

lemma two_clients_filter:
  "filter (\<lambda>d. err_id d \<noteq> err_id (priority_diagnostic 0)) [priority_error, missing_task, second_priority]
     = [missing_task, second_priority]"
  by code_simp

lemma two_clients_ids:
  "map err_id [priority_error, missing_task, second_priority] =
     [''clients-0-priorityLevel-Priority must be 1-5.'',
      ''clients-0-requestedTasks-Task ID '' @ dq @ ''T9'' @ dq @ '' not found.'',
      ''clients-1-priorityLevel-Priority must be 1-5.'']"
  by code_simp

theorem priority_edit_revalidation_witness:
  "all_errors [] two_clients = Some [priority_error, missing_task, second_priority]
   \<and> priority_diagnostic 0 = priority_error
   \<and> priority_diagnostic 0 \<in> set [priority_error, missing_task, second_priority]
   \<and> handleCellEdit clients 0 ''priorityLevel'' ''3'' edit_state =
        Some (edit_state\<lparr>sheets := edit_sheets two_clients clients 0 ''priorityLevel'' ''3'',
                         validationErrors := [missing_task, second_priority],
                         validationProgress := 100\<rparr>)
   \<and> jsonData (edit_sheets two_clients clients 0 ''priorityLevel'' ''3'' clients)
       = [[(''id'', JStr ''C1''), (''PriorityLevel'', JStr ''3''), (''requestedTasks'', JStr ''T9'')],
          [(''id'', JStr ''C2''), (''priority'', JStr ''9'')]]
   \<and> map err_id [priority_error, missing_task, second_priority] =
        [''clients-0-priorityLevel-Priority must be 1-5.'',
         ''clients-0-requestedTasks-Task ID '' @ dq @ ''T9'' @ dq @ '' not found.'',
         ''clients-1-priorityLevel-Priority must be 1-5.'']"
proof -
  have s: "sheets edit_state = two_clients" and r: "rules edit_state = []"
    by (simp_all add: edit_state_def)
  have p: "priority_diagnostic 0 = priority_error"
    by (simp add: priority_diagnostic_def priority_error_def)
  have h: "handleCellEdit clients 0 ''priorityLevel'' ''3'' edit_state =
        Some (edit_state\<lparr>sheets := edit_sheets two_clients clients 0 ''priorityLevel'' ''3'',
                         validationErrors := [missing_task, second_priority],
                         validationProgress := 100\<rparr>)"
    using priority_edit_revalidation[of 0 edit_state "''3''" "[priority_error, missing_task, second_priority]"]
      two_clients_errors two_clients_filter two_clients_hyps
    by (simp add: s r)
  show ?thesis
    using h p two_clients_errors two_clients_edit two_clients_ids by simp
qed

end
